theory Spec2Isabelle
  imports Complex_Main "HOL-Library.AList" "HOL-Library.Sublist"
begin

unbundle bit_operations_syntax

section \<open>The SmarAct MCS2 stage driver of LabExT\<close>

text \<open>
  A shallow embedding of \<^verbatim>\<open>src/LabExT/Movement/Stages/Stage6DSmarActMCS2.py\<close>:
  the unit converter of a channel, the channel properties, the stage life cycle
  (\<^verbatim>\<open>connect\<close>, \<^verbatim>\<open>disconnect\<close>), the movement methods with their polling loop, and the
  device discovery. Exceptions are values of the type \<open>error\<close>; the vendor binding
  \<^verbatim>\<open>smaract.ctl\<close> is a record that logs every call and answers it from the history of
  the calls before it; a method of the stage takes the binding and the stage and
  returns the result together with both, updated.
\<close>

subsection \<open>Exceptions\<close>

datatype error =
    StageError string
  | ValueError string
  | TypeError
  | KeyError
  | OverflowError
  | NotImplementedError
  | CtlError string
  | DriverUnavailable
  | NotConnected

subsection \<open>Python floats\<close>

text \<open>
  A finite Python float is the rational number it denotes. Every arithmetic operation
  on floats yields the exact result rounded to the nearest binary64 value, ties to the
  even significand (\<open>fl\<close>): 53 significant bits, the exponent taken from the binade of
  the exact result. \<open>fl\<close> itself leaves the exponent unbounded; a result of magnitude
  \<open>2 ^ 1024\<close> or more is the overflow to infinity (\<open>overflows\<close>), written out where
  the source can reach it. Infinities and NaN as inputs are outside the model.
\<close>

function bit_length :: "int \<Rightarrow> int" where
  "bit_length n = (if n \<le> 0 then 0 else bit_length (n div 2) + 1)"
  by pat_completeness auto
termination
  by (relation "measure nat") auto

declare bit_length.simps [simp del]

definition pow2 :: "int \<Rightarrow> rat" where
  "pow2 k = (if 0 \<le> k then 2 ^ nat k else 1 / 2 ^ nat (- k))"

definition ilog2 :: "rat \<Rightarrow> int" where
  \<comment> \<open>for \<open>0 < x\<close>: the exponent \<open>e\<close> with \<open>2 ^ e \<le> x < 2 ^ (e + 1)\<close>\<close>
  "ilog2 x =
     (if 1 \<le> x then bit_length \<lfloor>x\<rfloor> - 1
      else - bit_length (\<lceil>1 / x\<rceil> - 1))"

definition round_half_even :: "rat \<Rightarrow> int" where
  "round_half_even z =
     (let f = \<lfloor>z\<rfloor>; d = z - of_int f
      in if d < 1 / 2 then f
         else if 1 / 2 < d then f + 1
         else if even f then f else f + 1)"

definition fl :: "rat \<Rightarrow> rat" where
  "fl x =
     (if x = 0 then 0
      else let e = ilog2 \<bar>x\<bar>;
               m = round_half_even (\<bar>x\<bar> * pow2 (52 - e))
           in sgn x * of_int m * pow2 (e - 52))"

definition overflows :: "rat \<Rightarrow> bool" where
  \<comment> \<open>the rounded result has magnitude \<open>2 ^ 1024\<close> or more: it is infinite in binary64\<close>
  "overflows y = (y \<noteq> 0 \<and> 1024 \<le> ilog2 \<bar>y\<bar>)"

definition py_int :: "rat \<Rightarrow> int" where
  \<comment> \<open>\<^verbatim>\<open>int(y)\<close> of a finite float: truncation toward zero\<close>
  "py_int y = (if 0 \<le> y then \<lfloor>y\<rfloor> else \<lceil>y\<rceil>)"

subsection \<open>Unit converter\<close>

text \<open>
  \<^verbatim>\<open>_to_picometer(micrometer) = int(micrometer * 1e6)\<close>. The argument is a float, or an
  int that the multiplication converts to a float first (\<open>fl x\<close>, the identity on a
  float). A product that overflows is infinite, and \<^verbatim>\<open>int\<close> raises OverflowError on it,
  as the conversion of an int too large for a float does.
\<close>

definition to_picometer :: "rat \<Rightarrow> error + int" where
  "to_picometer micrometer =
     (let y = fl (fl micrometer * 1000000)
      in if overflows y then Inl OverflowError else Inr (py_int y))"

definition float_1e_minus6 :: rat where
  \<comment> \<open>the float literal \<^verbatim>\<open>1e-6\<close>, \<^verbatim>\<open>0x1.0c6f7a0b5ed8dp-20\<close>\<close>
  "float_1e_minus6 = fl (1 / 1000000)"

text \<open>
  \<^verbatim>\<open>_to_micrometer(picometer) = picometer * 1e-6\<close>: the int is converted to a float
  (OverflowError when it is too large), then multiplied.
\<close>

definition to_micrometer :: "int \<Rightarrow> error + rat" where
  "to_micrometer picometer =
     (let f = fl (of_int picometer)
      in if overflows f then Inl OverflowError
         else Inr (fl (f * float_1e_minus6)))"

text \<open>The round trip \<^verbatim>\<open>_to_micrometer(_to_picometer(v))\<close>.\<close>

definition round_trip :: "rat \<Rightarrow> error + rat" where
  "round_trip v = (case to_picometer v of Inl e \<Rightarrow> Inl e | Inr p \<Rightarrow> to_micrometer p)"

subsection \<open>Python values and strings\<close>

text \<open>
  The Python objects that reach the code below besides the members of the vendor's
  enumerations: \<^verbatim>\<open>None\<close>, an int, a string and the empty list.
\<close>

datatype pyobj = PyNone | PyInt int | PyStr string | PyEmptyList

function str_digits :: "int \<Rightarrow> string" where
  "str_digits n =
     (if n < 10 then [char_of (48 + n)]
      else str_digits (n div 10) @ [char_of (48 + n mod 10)])"
  by pat_completeness auto
termination
  by (relation "measure nat") auto

declare str_digits.simps [simp del]

definition str_int :: "int \<Rightarrow> string" where
  \<comment> \<open>\<^verbatim>\<open>str(i)\<close>, the decimal numeral\<close>
  "str_int i = (if i < 0 then CHR ''-'' # str_digits (- i) else str_digits i)"

fun py_str :: "pyobj \<Rightarrow> string" where
  "py_str PyNone = ''None''"
| "py_str (PyInt i) = str_int i"
| "py_str (PyStr s) = s"
| "py_str PyEmptyList = ''[]''"

fun starts_with :: "string \<Rightarrow> string \<Rightarrow> bool" where
  "starts_with [] s = True"
| "starts_with (p # ps) [] = False"
| "starts_with (p # ps) (c # cs) = (p = c \<and> starts_with ps cs)"

fun py_in :: "string \<Rightarrow> string \<Rightarrow> bool" where
  \<comment> \<open>\<^verbatim>\<open>sub in s\<close> on strings\<close>
  "py_in sub [] = (sub = [])"
| "py_in sub (c # cs) = (starts_with sub (c # cs) \<or> py_in sub cs)"

definition removesuffix :: "string \<Rightarrow> string \<Rightarrow> string" where
  \<comment> \<open>\<^verbatim>\<open>s.removesuffix(suffix)\<close>\<close>
  "removesuffix sfx s =
     (if sfx \<noteq> [] \<and> length sfx \<le> length s
         \<and> drop (length s - length sfx) s = sfx
      then take (length s - length sfx) s else s)"

fun split_on :: "char \<Rightarrow> string \<Rightarrow> string \<Rightarrow> string list" where
  "split_on sep acc [] = [rev acc]"
| "split_on sep acc (c # cs) =
     (if c = sep then rev acc # split_on sep [] cs else split_on sep (c # acc) cs)"

definition py_split :: "char \<Rightarrow> string \<Rightarrow> string list" where
  \<comment> \<open>\<^verbatim>\<open>s.split(sep)\<close> for a separator of one character\<close>
  "py_split sep s = split_on sep [] s"

fun str_lt :: "string \<Rightarrow> string \<Rightarrow> bool" where
  \<comment> \<open>\<^verbatim>\<open>a < b\<close> on strings: lexicographic, by code point\<close>
  "str_lt [] [] = False"
| "str_lt [] (b # bs) = True"
| "str_lt (a # as) [] = False"
| "str_lt (a # as) (b # bs) =
     (if a = b then str_lt as bs else (of_char a :: nat) < of_char b)"

fun py_lt :: "pyobj \<Rightarrow> pyobj \<Rightarrow> error + bool" where
  \<comment> \<open>\<^verbatim>\<open>a < b\<close>: defined within a type, TypeError between a string and a list\<close>
  "py_lt (PyStr a) (PyStr b) = Inr (str_lt a b)"
| "py_lt (PyInt a) (PyInt b) = Inr (a < b)"
| "py_lt PyEmptyList PyEmptyList = Inr False"
| "py_lt a b = Inl TypeError"

fun kind :: "pyobj \<Rightarrow> nat" where
  \<comment> \<open>the type of an object, as a tag: \<^verbatim>\<open><\<close> is defined within a type only\<close>
  "kind PyNone = 0"
| "kind (PyInt i) = 1"
| "kind (PyStr s) = 2"
| "kind PyEmptyList = 3"

text \<open>
  \<^verbatim>\<open>sorted(xs)\<close>: a stable sort by \<^verbatim>\<open><\<close>, here by insertion; the first comparison that
  raises ends it with that exception.
\<close>

fun py_insert :: "pyobj \<Rightarrow> pyobj list \<Rightarrow> error + pyobj list" where
  "py_insert x [] = Inr [x]"
| "py_insert x (y # ys) =
     (case py_lt y x of
        Inl e \<Rightarrow> Inl e
      | Inr True \<Rightarrow> (case py_insert x ys of Inl e \<Rightarrow> Inl e | Inr zs \<Rightarrow> Inr (y # zs))
      | Inr False \<Rightarrow> Inr (x # y # ys))"

fun py_sorted :: "pyobj list \<Rightarrow> error + pyobj list" where
  "py_sorted [] = Inr []"
| "py_sorted (x # xs) =
     (case py_sorted xs of Inl e \<Rightarrow> Inl e | Inr ys \<Rightarrow> py_insert x ys)"

subsection \<open>The vendor binding \<^verbatim>\<open>smaract.ctl\<close>\<close>

text \<open>
  The binding is imported at the top of the source and is not part of the repository.
  Of its enumeration \<^verbatim>\<open>ctl.Property\<close> the source names the members below. The
  enumeration \<^verbatim>\<open>ctl.MoveMode\<close> of the vendor has five members, of which the source
  names \<open>CL_ABSOLUTE\<close> and \<open>CL_RELATIVE\<close>. The enumeration \<^verbatim>\<open>ctl.ChannelState\<close>
  (names and flag values) is a parameter of the model, see \<open>environment\<close>.
\<close>

datatype Property =
    NUMBER_OF_BUS_MODULES
  | CHANNEL_STATE
  | POSITIONER_TYPE_NAME
  | POSITION
  | MOVE_VELOCITY
  | MOVE_ACCELERATION
  | MOVE_MODE

datatype MoveMode = CL_ABSOLUTE | CL_RELATIVE | SCAN_ABSOLUTE | SCAN_RELATIVE | STEP

text \<open>
  A call of the binding with its arguments, as a spy records it. A handle argument is
  the stage's \<^verbatim>\<open>handle\<close> attribute, which may be \<^verbatim>\<open>None\<close>. \<open>Sleep\<close> records
  \<^verbatim>\<open>time.sleep\<close> in the same log.
\<close>

datatype call =
    FindDevices
  | Open string
  | Close "int option"
  | GetProperty_i32 "int option" int Property
  | GetProperty_i64 "int option" int Property
  | GetProperty_s "int option" int Property
  | SetProperty_i32 "int option" int Property MoveMode
  | SetProperty_i64 "int option" int Property int
  | Move "int option" int int
  | Stop "int option" int
  | Sleep rat

text \<open>
  The state of the binding: the calls so far, oldest first, and how it answers a call
  after a given history: whether it raises \<^verbatim>\<open>ctl.Error\<close> (with which message) and which
  int or string it returns otherwise.
\<close>

record ctl =
  events :: "call list"
  raises :: "call list \<Rightarrow> call \<Rightarrow> string option"
  ret_int :: "call list \<Rightarrow> call \<Rightarrow> int"
  ret_str :: "call list \<Rightarrow> call \<Rightarrow> string"

definition log_call :: "call \<Rightarrow> ctl \<Rightarrow> ctl" where
  "log_call c hw = hw\<lparr>events := events hw @ [c]\<rparr>"

definition ctl_int :: "call \<Rightarrow> ctl \<Rightarrow> (error + int) \<times> ctl" where
  "ctl_int c hw =
     (case raises hw (events hw) c of
        Some msg \<Rightarrow> Inl (CtlError msg)
      | None \<Rightarrow> Inr (ret_int hw (events hw) c),
      log_call c hw)"

definition ctl_str :: "call \<Rightarrow> ctl \<Rightarrow> (error + string) \<times> ctl" where
  "ctl_str c hw =
     (case raises hw (events hw) c of
        Some msg \<Rightarrow> Inl (CtlError msg)
      | None \<Rightarrow> Inr (ret_str hw (events hw) c),
      log_call c hw)"

definition ctl_unit :: "call \<Rightarrow> ctl \<Rightarrow> (error + unit) \<times> ctl" where
  "ctl_unit c hw =
     (case raises hw (events hw) c of
        Some msg \<Rightarrow> Inl (CtlError msg)
      | None \<Rightarrow> Inr (),
      log_call c hw)"

definition sleep :: "rat \<Rightarrow> ctl \<Rightarrow> ctl" where
  \<comment> \<open>\<^verbatim>\<open>time.sleep(delay)\<close>\<close>
  "sleep delay hw = log_call (Sleep delay) hw"

subsection \<open>What the module takes from the rest of the repository\<close>

text \<open>
  Modelled from the spec: the axis enumerations \<^verbatim>\<open>Axis_Ch123\<close> and \<^verbatim>\<open>Axis_Ch456\<close> of
  \<^verbatim>\<open>LabExT.Movement.config\<close>, which is not among the sources: "an enumeration of
  logical axis roles (X, Y, Z) to physical channel indices". The members are \<open>X\<close>,
  \<open>Y\<close>, \<open>Z\<close>, iterated in this order; their values, the channel indices, are a
  parameter (\<open>Axis_value\<close>).
\<close>

datatype axis = X | Y | Z

datatype axis_group = Axis_Ch123 | Axis_Ch456

definition axes :: "axis list" where
  "axes = [X, Y, Z]"

fun axis_name :: "axis \<Rightarrow> string" where
  "axis_name X = ''X''"
| "axis_name Y = ''Y''"
| "axis_name Z = ''Z''"

text \<open>
  What the module reads from its surroundings: whether the import of the binding
  succeeded (\<^verbatim>\<open>MCS_LOADED\<close>, also the class attribute \<^verbatim>\<open>driver_loaded\<close>), the members
  of \<^verbatim>\<open>ctl.ChannelState\<close> in definition order with their flag values, and the values
  of the axis enumerations.
\<close>

record environment =
  MCS_LOADED :: bool
  ChannelState :: "(string \<times> int) list"
  Axis_value :: "axis_group \<Rightarrow> axis \<Rightarrow> int"

subsection \<open>The channel class\<close>

record channel =
  ch_name :: string
  ch_handle :: int
  ch_status :: "int option"
  ch_movement_mode :: MoveMode
  ch_position :: "rat option"
  ch_sensor :: "string option"
  ch_speed :: rat
  ch_acceleration :: rat

type_synonym 'a chan_io = "(error + 'a) \<times> ctl \<times> channel"

definition LINEAR_SENSORS :: "bool \<Rightarrow> string list" where
  "LINEAR_SENSORS loaded =
     (if loaded
      then [''SL...S1SS'', ''SL...S1ME'', ''SL...S1SC1'', ''SL...T1SS'', ''SL...D1SS'',
            ''SL...D1SC2'', ''SL...D1SC1'', ''SL...D1ME'', ''CT002/AT002'']
      else [])"

definition Channel_init :: "int \<Rightarrow> string \<Rightarrow> channel" where
  \<comment> \<open>\<^verbatim>\<open>_Channel.__init__(self, stage, index, name)\<close>\<close>
  "Channel_init index name =
     \<lparr>ch_name = name, ch_handle = index, ch_status = None,
      ch_movement_mode = CL_RELATIVE, ch_position = None, ch_sensor = None,
      ch_speed = 0, ch_acceleration = 0\<rparr>"

text \<open>
  A method of a channel reads the handle of its stage (\<^verbatim>\<open>self._stage.handle\<close>), here the
  argument \<open>h\<close>, calls the binding and updates the channel.
\<close>

definition status :: "int option \<Rightarrow> ctl \<Rightarrow> channel \<Rightarrow> int chan_io" where
  "status h hw c =
     (case ctl_int (GetProperty_i32 h (ch_handle c) CHANNEL_STATE) hw of
        (Inl e, hw') \<Rightarrow> (Inl e, hw', c)
      | (Inr v, hw') \<Rightarrow> (Inr v, hw', c\<lparr>ch_status := Some v\<rparr>))"

definition state_names :: "(string \<times> int) list \<Rightarrow> int \<Rightarrow> string list" where
  \<comment> \<open>the loop of \<^verbatim>\<open>humanized_status\<close> over \<^verbatim>\<open>ctl.ChannelState\<close>\<close>
  "state_names members status_code =
     map fst (filter (\<lambda>(name, value). status_code AND value \<noteq> 0) members)"

definition humanized_status ::
  "environment \<Rightarrow> int option \<Rightarrow> ctl \<Rightarrow> channel \<Rightarrow> (string list) chan_io" where
  "humanized_status env h hw c =
     (case status h hw c of
        (Inl e, hw', c') \<Rightarrow> (Inl e, hw', c')
      | (Inr status_code, hw', c') \<Rightarrow>
          (let states = state_names (ChannelState env) status_code
           in if states = []
              then (Inr [''Unknown status code: '' @ str_int status_code], hw', c')
              else (Inr states, hw', c')))"

definition sensor :: "int option \<Rightarrow> ctl \<Rightarrow> channel \<Rightarrow> string chan_io" where
  "sensor h hw c =
     (case ctl_str (GetProperty_s h (ch_handle c) POSITIONER_TYPE_NAME) hw of
        (Inl e, hw') \<Rightarrow> (Inl e, hw', c)
      | (Inr v, hw') \<Rightarrow> (Inr v, hw', c\<lparr>ch_sensor := Some v\<rparr>))"

definition is_sensor_linear ::
  "environment \<Rightarrow> int option \<Rightarrow> ctl \<Rightarrow> channel \<Rightarrow> bool chan_io" where
  "is_sensor_linear env h hw c =
     (case sensor h hw c of
        (Inl e, hw', c') \<Rightarrow> (Inl e, hw', c')
      | (Inr v, hw', c') \<Rightarrow> (Inr (v \<in> set (LINEAR_SENSORS (MCS_LOADED env))), hw', c'))"

definition position :: "int option \<Rightarrow> ctl \<Rightarrow> channel \<Rightarrow> rat chan_io" where
  "position h hw c =
     (case ctl_int (GetProperty_i64 h (ch_handle c) POSITION) hw of
        (Inl e, hw') \<Rightarrow> (Inl e, hw', c)
      | (Inr position_pm, hw') \<Rightarrow>
          (case to_micrometer position_pm of
             Inl e \<Rightarrow> (Inl e, hw', c)
           | Inr um \<Rightarrow> (Inr um, hw', c\<lparr>ch_position := Some um\<rparr>)))"

definition speed :: "int option \<Rightarrow> ctl \<Rightarrow> channel \<Rightarrow> rat chan_io" where
  "speed h hw c =
     (case ctl_int (GetProperty_i64 h (ch_handle c) MOVE_VELOCITY) hw of
        (Inl e, hw') \<Rightarrow> (Inl e, hw', c)
      | (Inr velocity_pmps, hw') \<Rightarrow>
          (case to_micrometer velocity_pmps of
             Inl e \<Rightarrow> (Inl e, hw', c)
           | Inr umps \<Rightarrow> (Inr umps, hw', c\<lparr>ch_speed := umps\<rparr>)))"

definition set_speed :: "rat \<Rightarrow> int option \<Rightarrow> ctl \<Rightarrow> channel \<Rightarrow> unit chan_io" where
  \<comment> \<open>the setter of \<^verbatim>\<open>speed\<close>\<close>
  "set_speed umps h hw c =
     (case to_picometer umps of
        Inl e \<Rightarrow> (Inl e, hw, c)
      | Inr velocity_pmps \<Rightarrow>
          (case ctl_unit (SetProperty_i64 h (ch_handle c) MOVE_VELOCITY velocity_pmps) hw of
             (Inl e, hw') \<Rightarrow> (Inl e, hw', c)
           | (Inr u, hw') \<Rightarrow> (Inr (), hw', c\<lparr>ch_speed := umps\<rparr>)))"

definition acceleration :: "int option \<Rightarrow> ctl \<Rightarrow> channel \<Rightarrow> rat chan_io" where
  "acceleration h hw c =
     (case ctl_int (GetProperty_i64 h (ch_handle c) MOVE_ACCELERATION) hw of
        (Inl e, hw') \<Rightarrow> (Inl e, hw', c)
      | (Inr acceleration_pmps2, hw') \<Rightarrow>
          (case to_micrometer acceleration_pmps2 of
             Inl e \<Rightarrow> (Inl e, hw', c)
           | Inr umps2 \<Rightarrow> (Inr umps2, hw', c\<lparr>ch_acceleration := umps2\<rparr>)))"

definition set_acceleration ::
  "rat \<Rightarrow> int option \<Rightarrow> ctl \<Rightarrow> channel \<Rightarrow> unit chan_io" where
  \<comment> \<open>the setter of \<^verbatim>\<open>acceleration\<close>\<close>
  "set_acceleration umps2 h hw c =
     (case to_picometer umps2 of
        Inl e \<Rightarrow> (Inl e, hw, c)
      | Inr acceleration_pmps2 \<Rightarrow>
          (case ctl_unit
                  (SetProperty_i64 h (ch_handle c) MOVE_ACCELERATION acceleration_pmps2) hw of
             (Inl e, hw') \<Rightarrow> (Inl e, hw', c)
           | (Inr u, hw') \<Rightarrow> (Inr (), hw', c\<lparr>ch_acceleration := umps2\<rparr>)))"

text \<open>
  The argument of the setter of \<^verbatim>\<open>movement_mode\<close> is any Python object: a member of
  \<^verbatim>\<open>ctl.MoveMode\<close>, for which \<^verbatim>\<open>isinstance(mode, ctl.MoveMode)\<close> holds, or another object.
\<close>

datatype mode_arg = Member MoveMode | Other pyobj

definition set_movement_mode ::
  "mode_arg \<Rightarrow> int option \<Rightarrow> ctl \<Rightarrow> channel \<Rightarrow> unit chan_io" where
  "set_movement_mode mode h hw c =
     (case mode of
        Other obj \<Rightarrow> (Inl (ValueError (''Invalid movement mode '' @ py_str obj)), hw, c)
      | Member m \<Rightarrow>
          (case ctl_unit (SetProperty_i32 h (ch_handle c) MOVE_MODE m) hw of
             (Inl e, hw') \<Rightarrow> (Inl e, hw', c)
           | (Inr u, hw') \<Rightarrow> (Inr (), hw', c\<lparr>ch_movement_mode := m\<rparr>)))"

definition stop :: "int option \<Rightarrow> ctl \<Rightarrow> channel \<Rightarrow> unit chan_io" where
  "stop h hw c =
     (case ctl_unit (Stop h (ch_handle c)) hw of (r, hw') \<Rightarrow> (r, hw', c))"

definition move ::
  "rat \<Rightarrow> mode_arg \<Rightarrow> int option \<Rightarrow> ctl \<Rightarrow> channel \<Rightarrow> unit chan_io" where
  "move val mode h hw c =
     (case set_movement_mode mode h hw c of
        (Inl e, hw', c') \<Rightarrow> (Inl e, hw', c')
      | (Inr u, hw', c') \<Rightarrow>
          (case to_picometer val of
             Inl e \<Rightarrow> (Inl e, hw', c')
           | Inr pm \<Rightarrow>
               (case ctl_unit (Move h (ch_handle c') pm) hw' of
                  (r, hw'') \<Rightarrow> (r, hw'', c'))))"

definition find_reference_mark_ch ::
  "int option \<Rightarrow> ctl \<Rightarrow> channel \<Rightarrow> unit chan_io" where
  \<comment> \<open>\<^verbatim>\<open>_Channel.find_reference_mark\<close>\<close>
  "find_reference_mark_ch h hw c = (Inl NotImplementedError, hw, c)"

subsection \<open>The stage class\<close>

record stage =
  address :: string
  Axis :: axis_group
  open_new_connection :: bool
  handle :: "int option"
  channels :: "(axis \<times> channel) list"
  connected :: bool

text \<open>
  \<open>channels\<close> is the dict of the source as an association list in insertion order:
  \<^verbatim>\<open>channels[k] = c\<close> is \<open>AList.update k c\<close>, iteration follows the list.
\<close>

type_synonym 'a stage_io = "(error + 'a) \<times> ctl \<times> stage"

text \<open>
  Modelled from the spec: the constructor of the base class \<^verbatim>\<open>Stage\<close> and the decorators
  \<^verbatim>\<open>assert_driver_loaded\<close> and \<^verbatim>\<open>assert_stage_connected\<close> of \<^verbatim>\<open>LabExT.Movement.Stage\<close>,
  which is not among the sources. A stage is constructed disconnected; a decorated
  method "fails fast with a distinct error (DriverUnavailable vs NotConnected) before
  any hardware access is attempted".
\<close>

definition assert_driver_loaded ::
  "environment \<Rightarrow> (ctl \<Rightarrow> stage \<Rightarrow> 'a stage_io) \<Rightarrow> ctl \<Rightarrow> stage \<Rightarrow> 'a stage_io" where
  "assert_driver_loaded env method hw s =
     (if MCS_LOADED env then method hw s else (Inl DriverUnavailable, hw, s))"

definition assert_stage_connected ::
  "(ctl \<Rightarrow> stage \<Rightarrow> 'a stage_io) \<Rightarrow> ctl \<Rightarrow> stage \<Rightarrow> 'a stage_io" where
  "assert_stage_connected method hw s =
     (if connected s then method hw s else (Inl NotConnected, hw, s))"

definition Stage_init :: "string \<Rightarrow> error + stage" where
  \<comment> \<open>\<^verbatim>\<open>Stage6DSmarActMCS2.__init__(self, address)\<close>\<close>
  "Stage_init addr =
     (if py_in ''Ch1-3'' addr
      then Inr \<lparr>address = addr, Axis = Axis_Ch123, open_new_connection = True,
                handle = None, channels = [], connected = False\<rparr>
      else if py_in ''Ch4-6'' addr
      then Inr \<lparr>address = addr, Axis = Axis_Ch456, open_new_connection = False,
                handle = None, channels = [], connected = False\<rparr>
      else Inl (StageError ''Stage address does not contain channel suffix.''))"

text \<open>Sequencing of two statements: an exception of the first skips the second.\<close>

definition seq ::
  "(ctl \<Rightarrow> stage \<Rightarrow> 'a stage_io) \<Rightarrow> (ctl \<Rightarrow> stage \<Rightarrow> 'b stage_io)
     \<Rightarrow> ctl \<Rightarrow> stage \<Rightarrow> 'b stage_io" where
  "seq first second hw s =
     (case first hw s of
        (Inl e, hw', s') \<Rightarrow> (Inl e, hw', s')
      | (Inr u, hw', s') \<Rightarrow> second hw' s')"

definition skip :: "ctl \<Rightarrow> stage \<Rightarrow> unit stage_io" where
  "skip hw s = (Inr (), hw, s)"

text \<open>
  \<^verbatim>\<open>self.channels[ax].method(...)\<close>: KeyError when the dict has no such key; the method
  runs on the channel object, which stays in the dict with its updates.
\<close>

definition on_channel ::
  "axis \<Rightarrow> (int option \<Rightarrow> ctl \<Rightarrow> channel \<Rightarrow> 'a chan_io) \<Rightarrow> ctl \<Rightarrow> stage \<Rightarrow> 'a stage_io" where
  "on_channel ax method hw s =
     (case map_of (channels s) ax of
        None \<Rightarrow> (Inl KeyError, hw, s)
      | Some c \<Rightarrow>
          (case method (handle s) hw c of
             (r, hw', c') \<Rightarrow> (r, hw', s\<lparr>channels := AList.update ax c' (channels s)\<rparr>)))"

definition set_speed_xy :: "environment \<Rightarrow> rat \<Rightarrow> ctl \<Rightarrow> stage \<Rightarrow> unit stage_io" where
  "set_speed_xy env umps =
     assert_driver_loaded env (assert_stage_connected
       (seq (on_channel X (set_speed umps)) (on_channel Y (set_speed umps))))"

definition set_speed_z :: "environment \<Rightarrow> rat \<Rightarrow> ctl \<Rightarrow> stage \<Rightarrow> unit stage_io" where
  "set_speed_z env umps =
     assert_driver_loaded env (assert_stage_connected (on_channel Z (set_speed umps)))"

definition set_acceleration_xy ::
  "environment \<Rightarrow> rat \<Rightarrow> ctl \<Rightarrow> stage \<Rightarrow> unit stage_io" where
  "set_acceleration_xy env umps2 =
     assert_driver_loaded env (assert_stage_connected
       (seq (on_channel X (set_acceleration umps2)) (on_channel Y (set_acceleration umps2))))"

definition open_system :: "ctl \<Rightarrow> stage \<Rightarrow> (error + int option) \<times> ctl" where
  \<comment> \<open>\<^verbatim>\<open>_open_system\<close>: a handle that is falsy (0) is returned as \<^verbatim>\<open>None\<close>\<close>
  "open_system hw s =
     (case ctl_int (Open (removesuffix ''_Ch1-3'' (address s))) hw of
        (Inl e, hw') \<Rightarrow> (Inl e, hw')
      | (Inr h, hw') \<Rightarrow> (Inr (if h \<noteq> 0 then Some h else None), hw'))"

fun sensor_check ::
  "environment \<Rightarrow> axis list \<Rightarrow> ctl \<Rightarrow> stage \<Rightarrow> unit stage_io" where
  "sensor_check env [] hw s = (Inr (), hw, s)"
| "sensor_check env (index # rest) hw s =
     (case on_channel index (is_sensor_linear env) hw s of
        (Inl e, hw', s') \<Rightarrow> (Inl e, hw', s')
      | (Inr is_linear, hw', s') \<Rightarrow>
          (if \<not> is_linear
           then (Inl (StageError (''Channel '' @ axis_name index @ '' of stage '' @ address s
                   @ '' has no supported linear sensor!'')), hw', s')
           else sensor_check env rest hw' s'))"

definition raise_if_sensor_non_linear ::
  "environment \<Rightarrow> ctl \<Rightarrow> stage \<Rightarrow> unit stage_io" where
  \<comment> \<open>\<^verbatim>\<open>_raise_if_sensor_non_linear\<close>: the loop over \<^verbatim>\<open>self.channels.items()\<close>\<close>
  "raise_if_sensor_non_linear env hw s = sensor_check env (map fst (channels s)) hw s"

text \<open>The steps of \<^verbatim>\<open>connect\<close>, in the order of the source.\<close>

definition acquire_handle :: "ctl \<Rightarrow> stage \<Rightarrow> unit stage_io" where
  \<comment> \<open>lines 294 to 299: open a session, or adopt the handle 1\<close>
  "acquire_handle hw s =
     (if open_new_connection s
      then (case open_system hw s of
              (Inl e, hw') \<Rightarrow> (Inl e, hw', s)
            | (Inr h, hw') \<Rightarrow>
                (if h \<noteq> Some 1
                 then (Inl (StageError ''Expected the handle to be 1.''), hw', s\<lparr>handle := h\<rparr>)
                 else (Inr (), hw', s\<lparr>handle := h\<rparr>)))
      else (Inr (), hw, s\<lparr>handle := Some 1\<rparr>))"

definition construct_channels :: "environment \<Rightarrow> stage \<Rightarrow> stage" where
  \<comment> \<open>lines 302 and 303: one channel object for each member of \<^verbatim>\<open>self.Axis\<close>\<close>
  "construct_channels env s =
     s\<lparr>channels :=
         fold (\<lambda>ch. AList.update ch (Channel_init (Axis_value env (Axis s) ch) (axis_name ch)))
           axes (channels s)\<rparr>"

definition initialize :: "environment \<Rightarrow> ctl \<Rightarrow> stage \<Rightarrow> unit stage_io" where
  \<comment> \<open>lines 306 to 311, the body of the \<^verbatim>\<open>try\<close>\<close>
  "initialize env =
     seq (raise_if_sensor_non_linear env)
       (\<lambda>hw s.
          seq (set_speed_xy env 300)
            (seq (set_speed_z env 20) (set_acceleration_xy env 0))
            hw (s\<lparr>connected := True\<rparr>))"

definition connect :: "environment \<Rightarrow> ctl \<Rightarrow> stage \<Rightarrow> bool stage_io" where
  "connect env =
     assert_driver_loaded env
       (\<lambda>hw s.
          if connected s then (Inr True, hw, s)
          else
            (case acquire_handle hw s of
               (Inl e, hw1, s1) \<Rightarrow> (Inl e, hw1, s1)
             | (Inr u, hw1, s1) \<Rightarrow>
                 (if handle s1 \<noteq> None
                  then
                    (case initialize env hw1 (construct_channels env s1) of
                       (Inl e, hw2, s2) \<Rightarrow>
                         (Inl e, hw2, s2\<lparr>connected := False, handle := None, channels := []\<rparr>)
                     | (Inr u, hw2, s2) \<Rightarrow> (Inr (connected s2), hw2, s2))
                  else (Inr False, hw1, s1\<lparr>connected := False\<rparr>))))"

definition disconnect :: "environment \<Rightarrow> ctl \<Rightarrow> stage \<Rightarrow> unit stage_io" where
  "disconnect env =
     assert_driver_loaded env (assert_stage_connected
       (\<lambda>hw s.
          if open_new_connection s
          then (case ctl_unit (Close (handle s)) hw of
                  (Inl e, hw') \<Rightarrow> (Inl e, hw', s)
                | (Inr u, hw') \<Rightarrow> (Inr (), hw', s\<lparr>connected := False, handle := None\<rparr>))
          else (Inr (), hw, s\<lparr>connected := False, handle := None\<rparr>)))"

fun collect_status ::
  "environment \<Rightarrow> axis list \<Rightarrow> ctl \<Rightarrow> stage \<Rightarrow> (string list list) stage_io" where
  "collect_status env [] hw s = (Inr [], hw, s)"
| "collect_status env (ch # rest) hw s =
     (case on_channel ch (humanized_status env) hw s of
        (Inl e, hw', s') \<Rightarrow> (Inl e, hw', s')
      | (Inr names, hw', s') \<Rightarrow>
          (case collect_status env rest hw' s' of
             (Inl e, hw'', s'') \<Rightarrow> (Inl e, hw'', s'')
           | (Inr others, hw'', s'') \<Rightarrow> (Inr (names # others), hw'', s'')))"

definition get_status ::
  "environment \<Rightarrow> ctl \<Rightarrow> stage \<Rightarrow> (string list list) stage_io" where
  \<comment> \<open>the tuple of the humanized status of every channel in \<^verbatim>\<open>self.channels.values()\<close>\<close>
  "get_status env =
     assert_driver_loaded env (assert_stage_connected
       (\<lambda>hw s. collect_status env (map fst (channels s)) hw s))"

definition is_stopped :: "environment \<Rightarrow> ctl \<Rightarrow> stage \<Rightarrow> bool stage_io" where
  "is_stopped env =
     assert_driver_loaded env (assert_stage_connected
       (\<lambda>hw s.
          case get_status env hw s of
            (Inl e, hw', s') \<Rightarrow> (Inl e, hw', s')
          | (Inr statuses, hw', s') \<Rightarrow>
              (Inr (\<not> list_ex (\<lambda>names. ''ACTIVELY_MOVING'' \<in> set names) statuses), hw', s')))"

subsection \<open>Movement\<close>

text \<open>
  \<^verbatim>\<open>_wait_for_stopping\<close> loops without a bound: sleep, read \<^verbatim>\<open>is_stopped\<close>, leave the loop
  when it is true. The result is \<open>None\<close> when the loop never ends.
\<close>

partial_function (option) wait_for_stopping ::
  "environment \<Rightarrow> rat \<Rightarrow> ctl \<Rightarrow> stage \<Rightarrow> (unit stage_io) option" where
  "wait_for_stopping env delay hw s =
     (case is_stopped env (sleep delay hw) s of
        (Inl e, hw', s') \<Rightarrow> Some (Inl e, hw', s')
      | (Inr stopped, hw', s') \<Rightarrow>
          (if stopped then Some (Inr (), hw', s')
           else wait_for_stopping env delay hw' s'))"

declare wait_for_stopping.simps [code]

definition default_delay :: rat where
  \<comment> \<open>the float literal \<^verbatim>\<open>0.05\<close>\<close>
  "default_delay = fl (1 / 20)"

definition move_relative_commands ::
  "environment \<Rightarrow> rat \<Rightarrow> rat \<Rightarrow> rat \<Rightarrow> ctl \<Rightarrow> stage \<Rightarrow> unit stage_io" where
  \<comment> \<open>\<^verbatim>\<open>move_relative\<close> up to the test of \<^verbatim>\<open>wait_for_stopping\<close>\<close>
  "move_relative_commands env x y z =
     assert_driver_loaded env (assert_stage_connected
       (seq (on_channel X (move x (Member CL_RELATIVE)))
          (seq (on_channel Y (move y (Member CL_RELATIVE)))
             (on_channel Z (move z (Member CL_RELATIVE))))))"

definition move_relative ::
  "environment \<Rightarrow> rat \<Rightarrow> rat \<Rightarrow> rat \<Rightarrow> bool \<Rightarrow> ctl \<Rightarrow> stage \<Rightarrow> (unit stage_io) option" where
  "move_relative env x y z wait hw s =
     (case move_relative_commands env x y z hw s of
        (Inl e, hw', s') \<Rightarrow> Some (Inl e, hw', s')
      | (Inr u, hw', s') \<Rightarrow>
          (if wait then wait_for_stopping env default_delay hw' s'
           else Some (Inr (), hw', s')))"

definition move_to :: "axis \<Rightarrow> rat option \<Rightarrow> ctl \<Rightarrow> stage \<Rightarrow> unit stage_io" where
  \<comment> \<open>\<^verbatim>\<open>if v is not None: self.channels[ax].move(value=v, mode=ctl.MoveMode.CL_ABSOLUTE)\<close>\<close>
  "move_to ax target =
     (case target of
        None \<Rightarrow> skip
      | Some v \<Rightarrow> on_channel ax (move v (Member CL_ABSOLUTE)))"

definition move_absolute_commands ::
  "environment \<Rightarrow> rat option \<Rightarrow> rat option \<Rightarrow> rat option \<Rightarrow> ctl \<Rightarrow> stage
     \<Rightarrow> unit stage_io" where
  \<comment> \<open>\<^verbatim>\<open>move_absolute\<close> up to the test of \<^verbatim>\<open>wait_for_stopping\<close>\<close>
  "move_absolute_commands env x y z =
     assert_driver_loaded env (assert_stage_connected
       (seq (move_to X x) (seq (move_to Y y) (move_to Z z))))"

definition move_absolute ::
  "environment \<Rightarrow> rat option \<Rightarrow> rat option \<Rightarrow> rat option \<Rightarrow> bool \<Rightarrow> ctl \<Rightarrow> stage
     \<Rightarrow> (unit stage_io) option" where
  "move_absolute env x y z wait hw s =
     (case move_absolute_commands env x y z hw s of
        (Inl e, hw', s') \<Rightarrow> Some (Inl e, hw', s')
      | (Inr u, hw', s') \<Rightarrow>
          (if wait then wait_for_stopping env default_delay hw' s'
           else Some (Inr (), hw', s')))"

subsection \<open>Device discovery\<close>

definition is_two_modules :: "string \<Rightarrow> ctl \<Rightarrow> (error + bool) \<times> ctl" where
  "is_two_modules locator hw =
     (case ctl_int (Open locator) hw of
        (Inl e, hw1) \<Rightarrow> (Inl e, hw1)
      | (Inr d_handle, hw1) \<Rightarrow>
          (case ctl_int (GetProperty_i32 (Some d_handle) 0 NUMBER_OF_BUS_MODULES) hw1 of
             (Inl e, hw2) \<Rightarrow> (Inl e, hw2)
           | (Inr n, hw2) \<Rightarrow>
               (case ctl_unit (Close (Some d_handle)) hw2 of
                  (Inl e, hw3) \<Rightarrow> (Inl e, hw3)
                | (Inr u, hw3) \<Rightarrow> (Inr (n = 2), hw3))))"

text \<open>
  The loop over \<^verbatim>\<open>enumerate(locators.copy())\<close>: it assigns to \<^verbatim>\<open>locators[ii]\<close>, an index
  within the list, and appends to \<^verbatim>\<open>locators\<close>.
\<close>

fun classify ::
  "(nat \<times> string) list \<Rightarrow> pyobj list \<Rightarrow> ctl \<Rightarrow> (error + pyobj list) \<times> ctl" where
  "classify [] locators hw = (Inr locators, hw)"
| "classify ((ii, locator) # rest) locators hw =
     (case is_two_modules locator hw of
        (Inl e, hw') \<Rightarrow> (Inl e, hw')
      | (Inr two, hw') \<Rightarrow>
          (if two
           then classify rest
                  (locators[ii := PyStr (locator @ ''_Ch1-3'')] @ [PyStr (locator @ ''_Ch4-6'')])
                  hw'
           else classify rest (locators[ii := PyEmptyList]) hw'))"

definition find_stage_addresses ::
  "environment \<Rightarrow> ctl \<Rightarrow> (error + pyobj list) \<times> ctl" where
  "find_stage_addresses env hw =
     (if \<not> MCS_LOADED env then (Inl DriverUnavailable, hw)
      else
        (case ctl_str FindDevices hw of
           (Inl e, hw') \<Rightarrow> (Inl e, hw')
         | (Inr buffer, hw') \<Rightarrow>
             (if buffer \<noteq> []
              then
                (let locators = py_split CHR 0x0A buffer
                 in case classify (enumerate 0 locators) (map PyStr locators) hw' of
                      (Inl e, hw'') \<Rightarrow> (Inl e, hw'')
                    | (Inr locators', hw'') \<Rightarrow> (py_sorted locators', hw''))
              else (Inr [], hw'))))"

subsection \<open>Observing the calls\<close>

definition issued :: "ctl \<Rightarrow> ctl \<Rightarrow> call list" where
  \<comment> \<open>the calls logged after the state \<open>hw\<close>, in the later state \<open>hw'\<close>\<close>
  "issued hw hw' = drop (length (events hw)) (events hw')"

fun is_Move :: "call \<Rightarrow> bool" where
  "is_Move (Move h i v) = True"
| "is_Move c = False"

fun is_Open :: "call \<Rightarrow> bool" where
  "is_Open (Open locator) = True"
| "is_Open c = False"

fun is_Close :: "call \<Rightarrow> bool" where
  "is_Close (Close h) = True"
| "is_Close c = False"

fun is_Sleep :: "call \<Rightarrow> bool" where
  "is_Sleep (Sleep d) = True"
| "is_Sleep c = False"

fun handle_of :: "call \<Rightarrow> int option option" where
  \<comment> \<open>the handle argument of a call that has one\<close>
  "handle_of (Close h) = Some h"
| "handle_of (GetProperty_i32 h i p) = Some h"
| "handle_of (GetProperty_i64 h i p) = Some h"
| "handle_of (GetProperty_s h i p) = Some h"
| "handle_of (SetProperty_i32 h i p m) = Some h"
| "handle_of (SetProperty_i64 h i p v) = Some h"
| "handle_of (Move h i v) = Some h"
| "handle_of (Stop h i) = Some h"
| "handle_of c = None"

fun is_status_read :: "call \<Rightarrow> bool" where
  "is_status_read (GetProperty_i32 h i p) = (p = CHANNEL_STATE)"
| "is_status_read c = False"

definition extends_with :: "(call \<Rightarrow> bool) \<Rightarrow> ctl \<Rightarrow> ctl \<Rightarrow> bool" where
  \<comment> \<open>\<open>hw'\<close> is \<open>hw\<close> after further calls, all of which satisfy \<open>P\<close>\<close>
  "extends_with P hw hw' = (\<exists>cs. events hw' = events hw @ cs \<and> list_all P cs)"

definition same_layout :: "stage \<Rightarrow> stage \<Rightarrow> bool" where
  \<comment> \<open>the same handle, connection flag, keys and channel indices\<close>
  "same_layout s s' =
     (handle s' = handle s \<and> connected s' = connected s
      \<and> (\<lambda>ax. map_option ch_handle (map_of (channels s') ax))
           = (\<lambda>ax. map_option ch_handle (map_of (channels s) ax)))"

definition on_handle :: "ctl \<Rightarrow> stage \<Rightarrow> ctl \<Rightarrow> stage \<Rightarrow> bool" where
  \<comment> \<open>from \<open>(hw, s)\<close> to \<open>(hw', s')\<close> the stage keeps its handle and address, and every
      call carries that handle\<close>
  "on_handle hw s hw' s' =
     (extends_with (\<lambda>q. handle_of q = Some (handle s)) hw hw'
      \<and> handle s' = handle s \<and> address s' = address s)"

definition issues_moves :: "call list \<Rightarrow> error + unit \<Rightarrow> ctl \<Rightarrow> ctl \<Rightarrow> bool" where
  \<comment> \<open>the move calls between \<open>hw\<close> and \<open>hw'\<close> are the first of \<open>expected\<close>, and all of
      them when the result \<open>r\<close> is no exception\<close>
  "issues_moves expected r hw hw' =
     (\<exists>cs. events hw' = events hw @ cs
        \<and> prefix (filter is_Move cs) expected
        \<and> (r = Inr () \<longrightarrow> filter is_Move cs = expected))"

text \<open>
  The move calls that \<^verbatim>\<open>move_absolute(x, y, z)\<close> is to issue on the stage \<open>s\<close>: for each
  axis with a target, in the order X, Y, Z, one call on the channel of that axis with
  the target in picometers.
\<close>

definition move_call :: "stage \<Rightarrow> axis \<Rightarrow> rat option \<Rightarrow> call list" where
  "move_call s ax target =
     (case target of
        None \<Rightarrow> []
      | Some v \<Rightarrow>
          (case map_of (channels s) ax of
             None \<Rightarrow> []
           | Some c \<Rightarrow>
               (case to_picometer v of
                  Inl e \<Rightarrow> []
                | Inr pm \<Rightarrow> [Move (handle s) (ch_handle c) pm])))"

definition expected_moves ::
  "stage \<Rightarrow> rat option \<Rightarrow> rat option \<Rightarrow> rat option \<Rightarrow> call list" where
  "expected_moves s x y z = move_call s X x @ move_call s Y y @ move_call s Z z"

text \<open>
  The polls of \<^verbatim>\<open>_wait_for_stopping\<close>: \<open>poll_state k\<close> is the state after \<open>k\<close> rounds
  of sleeping and reading \<^verbatim>\<open>is_stopped\<close>, and \<open>poll k\<close> is what the next round reads there.
\<close>

fun poll_state :: "environment \<Rightarrow> rat \<Rightarrow> nat \<Rightarrow> ctl \<Rightarrow> stage \<Rightarrow> ctl \<times> stage" where
  "poll_state env delay 0 hw s = (hw, s)"
| "poll_state env delay (Suc k) hw s =
     (case is_stopped env (sleep delay hw) s of (r, hw', s') \<Rightarrow> poll_state env delay k hw' s')"

definition poll :: "environment \<Rightarrow> rat \<Rightarrow> nat \<Rightarrow> ctl \<Rightarrow> stage \<Rightarrow> error + bool" where
  "poll env delay k hw s =
     (case poll_state env delay k hw s of (hw', s') \<Rightarrow> fst (is_stopped env (sleep delay hw') s'))"

subsection \<open>A test bench\<close>

text \<open>
  A scripted binding and two stages for the concrete runs below. The bench never
  raises; it answers \<^verbatim>\<open>FindDevices\<close> with \<open>devices\<close>, \<^verbatim>\<open>Open\<close> with \<open>opened\<close>, the
  number of bus modules with \<open>modules\<close> and the channel state with \<open>state\<close> (both of
  the history), and every sensor name with a linear sensor.
\<close>

definition bench ::
  "string \<Rightarrow> int \<Rightarrow> (call list \<Rightarrow> int) \<Rightarrow> (call list \<Rightarrow> int) \<Rightarrow> ctl" where
  "bench devices opened modules state =
     \<lparr>events = [],
      raises = (\<lambda>history c. None),
      ret_int = (\<lambda>history c.
        case c of
          Open locator \<Rightarrow> opened
        | GetProperty_i32 h i p \<Rightarrow>
            (if p = NUMBER_OF_BUS_MODULES then modules history else state history)
        | _ \<Rightarrow> 0),
      ret_str = (\<lambda>history c.
        case c of FindDevices \<Rightarrow> devices | _ \<Rightarrow> ''SL...S1SS'')\<rparr>"

definition bench_env :: environment where
  "bench_env =
     \<lparr>MCS_LOADED = True,
      ChannelState = [(''ACTIVELY_MOVING'', 1), (''CLOSED_LOOP_ACTIVE'', 2),
                      (''CALIBRATING'', 4), (''REFERENCING'', 8)],
      Axis_value = (\<lambda>group ch.
        (case group of Axis_Ch123 \<Rightarrow> 0 | Axis_Ch456 \<Rightarrow> 3)
        + (case ch of X \<Rightarrow> 0 | Y \<Rightarrow> 1 | Z \<Rightarrow> 2))\<rparr>"

definition primary_stage :: stage where
  \<comment> \<open>the stage that \<open>Stage_init ''LOC1_Ch1-3''\<close> constructs\<close>
  "primary_stage =
     \<lparr>address = ''LOC1_Ch1-3'', Axis = Axis_Ch123, open_new_connection = True,
      handle = None, channels = [], connected = False\<rparr>"

definition secondary_stage :: stage where
  \<comment> \<open>the stage that \<open>Stage_init ''LOC1_Ch4-6''\<close> constructs\<close>
  "secondary_stage =
     \<lparr>address = ''LOC1_Ch4-6'', Axis = Axis_Ch456, open_new_connection = False,
      handle = None, channels = [], connected = False\<rparr>"

definition connected_stage :: "bool \<Rightarrow> stage" where
  \<comment> \<open>a stage as a successful \<^verbatim>\<open>connect\<close> leaves it, primary or secondary\<close>
  "connected_stage primary =
     \<lparr>address = (if primary then ''LOC1_Ch1-3'' else ''LOC1_Ch4-6''),
      Axis = (if primary then Axis_Ch123 else Axis_Ch456),
      open_new_connection = primary, handle = Some 1,
      channels =
        [(X, (Channel_init (if primary then 0 else 3) ''X'')\<lparr>ch_sensor := Some ''SL...S1SS'', ch_speed := 300\<rparr>),
         (Y, (Channel_init (if primary then 1 else 4) ''Y'')\<lparr>ch_sensor := Some ''SL...S1SS'', ch_speed := 300\<rparr>),
         (Z, (Channel_init (if primary then 2 else 5) ''Z'')\<lparr>ch_sensor := Some ''SL...S1SS'', ch_speed := 20\<rparr>)],
      connected = True\<rparr>"

definition moving_until :: "nat \<Rightarrow> call list \<Rightarrow> int" where
  \<comment> \<open>a channel state: actively moving until the \<open>n\<close>-th sleep, stopped from then on\<close>
  "moving_until n history = (if length (filter is_Sleep history) < n then 1 else 0)"

definition modules_of :: "string \<Rightarrow> call list \<Rightarrow> int" where
  \<comment> \<open>two bus modules behind the locator \<open>dual\<close>, one behind any other\<close>
  "modules_of dual history =
     (case rev (filter is_Open history) of
        Open locator # earlier \<Rightarrow> (if locator = dual then 2 else 1)
      | _ \<Rightarrow> 1)"

section \<open>Properties of the unit converter\<close>

subsection \<open>Rounding to binary64\<close>

lemma bit_length_bounds:
  "0 < n \<Longrightarrow> \<exists>k. bit_length n = int (Suc k) \<and> 2 ^ k \<le> n \<and> n < 2 ^ Suc k"
proof (induction n rule: bit_length.induct)
  case (1 n)
  have bl: "bit_length n = bit_length (n div 2) + 1"
    using "1.prems" by (subst bit_length.simps) simp
  show ?case
  proof (cases "n div 2 \<le> 0")
    case True
    with "1.prems" have "n = 1" by linarith
    then have "bit_length n = int (Suc 0) \<and> 2 ^ 0 \<le> n \<and> n < 2 ^ Suc 0"
      by (simp add: bit_length.simps [of 1] bit_length.simps [of 0])
    then show ?thesis by blast
  next
    case False
    then have pos: "0 < n div 2" by simp
    from "1.IH" [OF _ pos] "1.prems"
    obtain k where k: "bit_length (n div 2) = int (Suc k)" "2 ^ k \<le> n div 2" "n div 2 < 2 ^ Suc k"
      by auto
    from k(2,3) have "2 * 2 ^ k \<le> n" "n < 2 * 2 ^ Suc k" by linarith+
    then have "bit_length n = int (Suc (Suc k)) \<and> 2 ^ Suc k \<le> n \<and> n < 2 ^ Suc (Suc k)"
      by (simp add: bl k(1))
    then show ?thesis by blast
  qed
qed

lemma pow2_pos [simp]: "0 < pow2 k"
  by (simp add: pow2_def)

lemma pow2_powi: "pow2 k = 2 powi k"
  by (simp add: pow2_def power_int_def inverse_eq_divide power_one_over)

lemma pow2_add: "pow2 (a + b) = pow2 a * pow2 b"
  by (simp add: pow2_powi power_int_add)

lemma pow2_nat: "pow2 (int n) = 2 ^ n"
  by (simp add: pow2_def)

lemma pow2_0 [simp]: "pow2 0 = 1"
  by (simp add: pow2_def)

lemma pow2_mono: "a \<le> b \<Longrightarrow> pow2 a \<le> pow2 b"
  by (simp add: pow2_powi power_int_increasing)

lemma pow2_strict_mono: "a < b \<Longrightarrow> pow2 a < pow2 b"
  by (simp add: pow2_powi power_int_strict_increasing)

lemma pow2_minus: "pow2 (- k) = 1 / pow2 k"
  by (simp add: pow2_powi power_int_minus divide_inverse)

lemma ilog2_bounds:
  assumes "0 < x"
  shows "pow2 (ilog2 x) \<le> x \<and> x < pow2 (ilog2 x + 1)"
proof (cases "1 \<le> x")
  case True
  define n where "n = \<lfloor>x\<rfloor>"
  have npos: "0 < n" using True by (simp add: n_def)
  have nx: "of_int n \<le> x" "x < of_int n + 1"
    unfolding n_def by linarith+
  from bit_length_bounds [OF npos]
  obtain k where k: "bit_length n = int (Suc k)" and b: "2 ^ k \<le> n" "n < 2 ^ Suc k" by auto
  have e: "ilog2 x = int k" using True by (simp add: ilog2_def n_def [symmetric] k)
  have "(of_int (2 ^ k) :: rat) \<le> of_int n" using b(1) by (simp only: of_int_le_iff)
  then have lo: "(2::rat) ^ k \<le> of_int n" by simp
  have "n + 1 \<le> 2 ^ Suc k" using b(2) by simp
  then have "(of_int (n + 1) :: rat) \<le> of_int (2 ^ Suc k)" by (simp only: of_int_le_iff)
  then have hi: "of_int n + 1 \<le> (2::rat) ^ Suc k" by simp
  have "pow2 (int k) \<le> x" unfolding pow2_nat using lo nx(1) by linarith
  moreover have "x < pow2 (int (Suc k))" unfolding pow2_nat using hi nx(2) by linarith
  moreover have "pow2 (int k + 1) = pow2 (int (Suc k))" by (simp add: add.commute)
  ultimately show ?thesis unfolding e by (simp only: simp_thms)
next
  case False
  define y where "y = 1 / x"
  have y1: "1 < y" using False assms by (simp add: y_def)
  define n where "n = \<lceil>y\<rceil> - 1"
  have cy: "2 \<le> \<lceil>y\<rceil>" using y1 by (simp add: le_ceiling_iff)
  have npos: "0 < n" using cy by (simp add: n_def)
  have nx: "of_int n < y" "y \<le> of_int n + 1"
    unfolding n_def by linarith+
  from bit_length_bounds [OF npos]
  obtain k where k: "bit_length n = int (Suc k)" and b: "2 ^ k \<le> n" "n < 2 ^ Suc k" by auto
  have e: "ilog2 x = - int (Suc k)"
    using False by (simp add: ilog2_def y_def [symmetric] n_def [symmetric] k)
  have lo: "(2::rat) ^ k < y"
  proof -
    have "(of_int (2 ^ k) :: rat) \<le> of_int n" using b(1) by (simp only: of_int_le_iff)
    then have "(2::rat) ^ k \<le> of_int n" by simp
    then show ?thesis using nx(1) by linarith
  qed
  have hi: "y \<le> (2::rat) ^ Suc k"
  proof -
    have "n + 1 \<le> 2 ^ Suc k" using b(2) by simp
    then have "(of_int (n + 1) :: rat) \<le> of_int (2 ^ Suc k)" by (simp only: of_int_le_iff)
    then have "of_int n + 1 \<le> (2::rat) ^ Suc k" by simp
    then show ?thesis using nx(2) by linarith
  qed
  have xy: "x = 1 / y" by (simp add: y_def)
  have ypos: "0 < y" using y1 by simp
  have "1 / (2::rat) ^ Suc k \<le> x"
    unfolding xy using hi ypos by (simp add: frac_le)
  moreover have "x < 1 / (2::rat) ^ k"
    unfolding xy using lo by (simp add: frac_less2)
  moreover have "pow2 (- int (Suc k)) = 1 / 2 ^ Suc k"
    by (simp only: pow2_minus pow2_nat)
  moreover have "- int (Suc k) + 1 = - int k" by simp
  moreover have "pow2 (- int k) = 1 / 2 ^ k"
    by (simp only: pow2_minus pow2_nat)
  ultimately show ?thesis
    unfolding e by simp
qed

lemma ilog2_unique:
  assumes "0 < x" "pow2 e \<le> x" "x < pow2 (e + 1)"
  shows "ilog2 x = e"
proof -
  from ilog2_bounds [OF assms(1)]
  have b: "pow2 (ilog2 x) \<le> x" "x < pow2 (ilog2 x + 1)" by auto
  have "\<not> ilog2 x < e"
  proof
    assume "ilog2 x < e"
    then have "pow2 (ilog2 x + 1) \<le> pow2 e" by (intro pow2_mono) simp
    with b(2) assms(2) show False by simp
  qed
  moreover have "\<not> e < ilog2 x"
  proof
    assume "e < ilog2 x"
    then have "pow2 (e + 1) \<le> pow2 (ilog2 x)" by (intro pow2_mono) simp
    with b(1) assms(3) show False by simp
  qed
  ultimately show ?thesis by simp
qed

lemma round_half_even_near:
  assumes "\<bar>z - of_int m\<bar> < 1 / 2"
  shows "round_half_even z = m"
proof (cases "of_int m \<le> z")
  case True
  then have f: "\<lfloor>z\<rfloor> = m" using assms by (intro floor_unique) auto
  show ?thesis using assms True by (simp add: round_half_even_def f Let_def)
next
  case False
  then have f: "\<lfloor>z\<rfloor> = m - 1" using assms by (intro floor_unique) auto
  have "1 / 2 < z - of_int (m - 1)" using assms False by auto
  then show ?thesis by (simp add: round_half_even_def f Let_def)
qed

lemma fl_pos:
  assumes "0 < x" "pow2 e \<le> x" "x < pow2 (e + 1)"
  shows "fl x = of_int (round_half_even (x * pow2 (52 - e))) * pow2 (e - 52)"
  using assms ilog2_unique [OF assms] by (simp add: fl_def Let_def)

lemma fl_minus: "fl (- x) = - fl x"
  by (simp add: fl_def Let_def)

lemma fl_near:
  assumes "0 < x" "pow2 e \<le> x" "x < pow2 (e + 1)"
    and "\<bar>x * pow2 (52 - e) - of_int m\<bar> < 1 / 2"
  shows "fl x = of_int m * pow2 (e - 52)"
  using fl_pos [OF assms(1-3)] round_half_even_near [OF assms(4)] by simp

lemma float_1e_minus6_value: "float_1e_minus6 = 4722366482869645 / 2 ^ 72"
  unfolding float_1e_minus6_def by code_simp

lemma fl_0 [simp]: "fl 0 = 0"
  by (simp add: fl_def)

lemma ilog2_le:
  assumes "0 < x" "x < pow2 k"
  shows "ilog2 x < k"
proof (rule ccontr)
  assume "\<not> ilog2 x < k"
  then have "pow2 k \<le> pow2 (ilog2 x)" by (intro pow2_mono) simp
  with ilog2_bounds [OF assms(1)] assms(2) show False by simp
qed

lemma fl_int_exact_pos:
  assumes "0 < n" "n < 2 ^ 53"
  shows "fl (of_int n) = of_int n"
proof -
  define x :: rat where "x = of_int n"
  have xpos: "0 < x" using assms by (simp add: x_def)
  define e where "e = ilog2 x"
  have b: "pow2 e \<le> x" "x < pow2 (e + 1)"
    using ilog2_bounds [OF xpos] by (simp_all add: e_def)
  have "x < pow2 53"
  proof -
    have "(of_int n :: rat) < of_int (2 ^ 53)" using assms(2) by (simp only: of_int_less_iff)
    then show ?thesis by (simp add: x_def pow2_def)
  qed
  from ilog2_le [OF xpos this] have e52: "e \<le> 52" by (simp add: e_def)
  have p: "pow2 (52 - e) = of_int (2 ^ nat (52 - e))"
    using e52 by (simp add: pow2_def)
  have "x * pow2 (52 - e) = of_int (n * 2 ^ nat (52 - e))"
    by (simp add: p x_def)
  then have "\<bar>x * pow2 (52 - e) - of_int (n * 2 ^ nat (52 - e))\<bar> < 1 / 2" by simp
  from fl_near [OF xpos b this]
  have "fl x = x * (pow2 (52 - e) * pow2 (e - 52))"
    by (simp add: p x_def)
  also have "pow2 (52 - e) * pow2 (e - 52) = 1"
    by (simp add: pow2_add [symmetric])
  finally show ?thesis by (simp add: x_def)
qed

lemma fl_int_exact:
  assumes "\<bar>n\<bar> < 2 ^ 53"
  shows "fl (of_int n) = of_int n"
proof -
  consider "0 < n" | "n = 0" | "n < 0" by linarith
  then show ?thesis
  proof cases
    case 1
    then show ?thesis using assms by (intro fl_int_exact_pos) auto
  next
    case 2
    then show ?thesis by simp
  next
    case 3
    then have "fl (of_int (- n)) = of_int (- n)" using assms by (intro fl_int_exact_pos) auto
    then show ?thesis using fl_minus [of "of_int n"] by simp
  qed
qed

lemma fl_back_pos:
  assumes "1 \<le> n" "n \<le> 9007199254"
  shows "fl (of_int (n * 1000000) * float_1e_minus6) = of_int n"
proof -
  define x :: rat where "x = of_int (n * 1000000) * float_1e_minus6"
  define dl :: rat where "dl = 213696 / 2 ^ 72"
  have xeq: "x = of_int n * (1 - dl)"
    by (simp add: x_def dl_def float_1e_minus6_value)
  have npos: "(0::rat) < of_int n" using assms by simp
  have xpos: "0 < x" unfolding xeq using npos by (simp add: dl_def)
  define e where "e = ilog2 x"
  have b: "pow2 e \<le> x" "x < pow2 (e + 1)"
    using ilog2_bounds [OF xpos] by (simp_all add: e_def)
  have "x < of_int n" unfolding xeq using npos by (simp add: dl_def)
  also have "(of_int n :: rat) \<le> of_int 9007199254" using assms(2) by (simp only: of_int_le_iff)
  also have "(of_int 9007199254 :: rat) < pow2 53" by (simp add: pow2_def)
  finally have "x < pow2 53" .
  from ilog2_le [OF xpos this] have e52: "e \<le> 52" by (simp add: e_def)
  have p: "pow2 (52 - e) = of_int (2 ^ nat (52 - e))"
    using e52 by (simp add: pow2_def)
  define A :: rat where "A = of_int n * pow2 (52 - e)"
  have Apos: "0 < A" using npos by (simp add: A_def)
  have "x * pow2 (52 - e) < pow2 (e + 1) * pow2 (52 - e)"
    using b(2) by (simp add: mult_strict_right_mono)
  also have "pow2 (e + 1) * pow2 (52 - e) = pow2 53"
    by (simp add: pow2_add [symmetric])
  also have "pow2 53 = 2 ^ 53"
    by (simp add: pow2_def)
  finally have "A * (1 - dl) < 2 ^ 53"
    by (simp add: xeq A_def mult.assoc mult.commute mult.left_commute)
  then have "A * dl < 1 / 2" using Apos
    by (simp add: dl_def)
  moreover have "0 < A * dl" using Apos by (simp add: dl_def)
  moreover have "x * pow2 (52 - e) = A - A * dl"
    by (simp add: xeq A_def algebra_simps)
  moreover have "A = of_int (n * 2 ^ nat (52 - e))"
    by (simp add: A_def p)
  ultimately have "\<bar>x * pow2 (52 - e) - of_int (n * 2 ^ nat (52 - e))\<bar> < 1 / 2"
    by simp
  from fl_near [OF xpos b this]
  have "fl x = of_int n * (pow2 (52 - e) * pow2 (e - 52))"
    by (simp add: p)
  also have "pow2 (52 - e) * pow2 (e - 52) = 1"
    by (simp add: pow2_add [symmetric])
  finally show ?thesis by (simp add: x_def)
qed

lemma fl_back:
  assumes "\<bar>n\<bar> \<le> 9007199254"
  shows "fl (of_int (n * 1000000) * float_1e_minus6) = of_int n"
proof -
  consider "1 \<le> n" | "n = 0" | "n \<le> - 1" by linarith
  then show ?thesis
  proof cases
    case 1
    then show ?thesis using assms by (intro fl_back_pos) auto
  next
    case 2
    then show ?thesis by simp
  next
    case 3
    then have "fl (of_int (- n * 1000000) * float_1e_minus6) = of_int (- n)"
      using assms by (intro fl_back_pos) auto
    then show ?thesis
      using fl_minus [of "of_int (n * 1000000) * float_1e_minus6"] by simp
  qed
qed

lemma py_int_of_int [simp]: "py_int (of_int k) = k"
  by (simp add: py_int_def)

lemma below_float_max:
  assumes "\<bar>k\<bar> < 2 ^ 53"
  shows "\<not> overflows (of_int k)"
proof (cases "k = 0")
  case True
  then show ?thesis by (simp add: overflows_def)
next
  case False
  define x :: rat where "x = \<bar>of_int k\<bar>"
  have xpos: "0 < x" using False by (simp add: x_def)
  have "(of_int \<bar>k\<bar> :: rat) < of_int (2 ^ 53)" using assms by (simp only: of_int_less_iff)
  then have "x < pow2 53" by (simp add: x_def pow2_def)
  from ilog2_le [OF xpos this] show ?thesis by (simp add: overflows_def x_def)
qed

lemma to_picometer_int:
  assumes "\<bar>n\<bar> \<le> 9007199254"
  shows "to_picometer (of_int n) = Inr (n * 1000000)"
proof -
  have n53: "\<bar>n\<bar> < 2 ^ 53" using assms by simp
  have p53: "\<bar>n * 1000000\<bar> < 2 ^ 53" using assms by (simp add: abs_mult)
  have "fl (of_int n) = of_int n" by (rule fl_int_exact [OF n53])
  moreover have "fl (of_int (n * 1000000)) = of_int (n * 1000000)"
    by (rule fl_int_exact [OF p53])
  ultimately have y: "fl (fl (of_int n) * 1000000) = of_int (n * 1000000)" by simp
  show ?thesis
    using below_float_max [OF p53]
    by (simp only: to_picometer_def Let_def y if_False py_int_of_int)
qed

lemma to_micrometer_int:
  assumes "\<bar>n\<bar> \<le> 9007199254"
  shows "to_micrometer (n * 1000000) = Inr (of_int n)"
proof -
  have p53: "\<bar>n * 1000000\<bar> < 2 ^ 53" using assms by (simp add: abs_mult)
  have f: "fl (of_int (n * 1000000)) = of_int (n * 1000000)"
    by (rule fl_int_exact [OF p53])
  show ?thesis
    using below_float_max [OF p53] fl_back [OF assms]
    by (simp only: to_micrometer_def Let_def f if_False)
qed

lemma py_int_truncates:
  "\<bar>of_int (py_int y)\<bar> \<le> \<bar>y\<bar> \<and> \<bar>y\<bar> < \<bar>of_int (py_int y)\<bar> + 1
     \<and> 0 \<le> of_int (py_int y) * y"
proof (cases "0 \<le> y")
  case True
  then have "0 \<le> \<lfloor>y\<rfloor>" by simp
  then have "\<bar>of_int \<lfloor>y\<rfloor> :: rat\<bar> = of_int \<lfloor>y\<rfloor>" by simp
  moreover have "of_int \<lfloor>y\<rfloor> \<le> y" "y < of_int \<lfloor>y\<rfloor> + 1" by linarith+
  ultimately show ?thesis using True by (simp add: py_int_def)
next
  case False
  then have "\<lceil>y\<rceil> \<le> 0" by (simp add: ceiling_le_iff)
  then have a: "\<bar>of_int \<lceil>y\<rceil> :: rat\<bar> = - of_int \<lceil>y\<rceil>" by simp
  have b: "y \<le> of_int \<lceil>y\<rceil>" "of_int \<lceil>y\<rceil> < y + 1" by linarith+
  have c: "(of_int \<lceil>y\<rceil> :: rat) \<le> 0" using \<open>\<lceil>y\<rceil> \<le> 0\<close> by simp
  have "0 \<le> of_int \<lceil>y\<rceil> * y" using c False by (simp add: mult_nonpos_nonpos)
  then show ?thesis using False a b by (simp add: py_int_def)
qed

subsection \<open>Conversion to picometers\<close>

text \<open>
  Claim C4 states that the conversion to native units is \<open>round(x * 1e6)\<close>, the nearest
  integer. The source converts with \<^verbatim>\<open>int\<close>, which truncates: at \<open>x = 3/256\<close>, a float
  whose product with \<open>1e6\<close> is the float \<open>11718.75\<close> exactly, the result is \<open>11718\<close>
  and the nearest integer is \<open>11719\<close>.
\<close>

theorem to_picometer_counterexample:
  "to_picometer (3 / 256) = Inr 11718 \<and> round_half_even (3 / 256 * 1000000) = 11719"
  unfolding to_picometer_def
  by code_simp

text \<open>
  Claim C4, as the code has it: unless the product overflows, \<open>to_picometer x\<close> is the
  float product \<open>x * 1e6\<close> truncated toward zero: the integer \<open>k\<close> of the sign of the
  product with \<open>\<bar>k\<bar> \<le> \<bar>product\<bar> < \<bar>k\<bar> + 1\<close>.
\<close>

theorem to_picometer_truncates:
  assumes "\<not> overflows (fl (fl x * 1000000))"
  shows "\<exists>k. to_picometer x = Inr k
       \<and> \<bar>of_int k\<bar> \<le> \<bar>fl (fl x * 1000000)\<bar>
       \<and> \<bar>fl (fl x * 1000000)\<bar> < \<bar>of_int k\<bar> + 1
       \<and> 0 \<le> of_int k * fl (fl x * 1000000)"
proof -
  have "to_picometer x = Inr (py_int (fl (fl x * 1000000)))"
    using assms by (simp add: to_picometer_def Let_def)
  with py_int_truncates [of "fl (fl x * 1000000)"] show ?thesis by simp
qed

theorem to_picometer_truncates_witness:
  "\<not> overflows (fl (fl (3 / 256) * 1000000)) \<and>
     (\<exists>k. to_picometer (3 / 256) = Inr k
       \<and> \<bar>of_int k\<bar> \<le> \<bar>fl (fl (3 / 256) * 1000000)\<bar>
       \<and> \<bar>fl (fl (3 / 256) * 1000000)\<bar> < \<bar>of_int k\<bar> + 1
       \<and> 0 \<le> of_int k * fl (fl (3 / 256) * 1000000))"
proof -
  have h: "\<not> overflows (fl (fl (3 / 256) * 1000000))" by code_simp
  from to_picometer_truncates [OF h] h show ?thesis by blast
qed

subsection \<open>The round trip\<close>

text \<open>
  Claim C5 states that the round trip through picometers returns every integral
  micrometer value. In binary64 it does not: the float \<open>7936945526496422\<close> comes back
  as \<open>7936945526496421\<close>, because its product with \<open>1e6\<close> is rounded.
\<close>

theorem round_trip_counterexample:
  "round_trip 7936945526496422 = Inr 7936945526496421"
  unfolding round_trip_def to_picometer_def to_micrometer_def float_1e_minus6_def
  by code_simp

text \<open>
  Claim C5, as the code has it: the round trip returns every integral micrometer value
  \<open>n\<close> whose picometer value is below \<open>2 ^ 53\<close>, that is \<open>\<bar>n\<bar> \<le> 9007199254\<close>. The
  product \<open>n * 1e6\<close> is exact there, and the product with the float \<open>1e-6\<close>, which is
  \<open>n * (1 - 213696 / 2 ^ 72)\<close>, lies within half a unit in the last place of \<open>n\<close>.
\<close>

theorem round_trip_integral:
  assumes "\<bar>n\<bar> \<le> 9007199254"
  shows "round_trip (of_int n) = Inr (of_int n)"
proof -
  have forth: "to_picometer (of_int n) = Inr (n * 1000000)"
    by (rule to_picometer_int [OF assms])
  have return: "to_micrometer (n * 1000000) = Inr (of_int n)"
    by (rule to_micrometer_int [OF assms])
  show ?thesis
    by (simp add: round_trip_def forth return)
qed

theorem round_trip_integral_witness:
  "\<bar>5 :: int\<bar> \<le> 9007199254 \<and> round_trip (of_int 5) = Inr (of_int 5)"
  using round_trip_integral [of 5] by simp

section \<open>The calls a method issues\<close>

subsection \<open>Extending the log\<close>

lemma events_log_call [simp]: "events (log_call c hw) = events hw @ [c]"
  by (simp add: log_call_def)

lemma ctl_int_hw: "ctl_int c hw = (r, hw') \<Longrightarrow> hw' = log_call c hw"
  by (auto simp: ctl_int_def)

lemma ctl_str_hw: "ctl_str c hw = (r, hw') \<Longrightarrow> hw' = log_call c hw"
  by (auto simp: ctl_str_def)

lemma ctl_unit_hw: "ctl_unit c hw = (r, hw') \<Longrightarrow> hw' = log_call c hw"
  by (auto simp: ctl_unit_def)

lemma extends_with_refl [simp]: "extends_with P hw hw"
  by (simp add: extends_with_def)

lemma extends_with_log: "P c \<Longrightarrow> extends_with P hw (log_call c hw)"
  by (simp add: extends_with_def)

lemma extends_with_trans:
  "extends_with P a b \<Longrightarrow> extends_with P b c \<Longrightarrow> extends_with P a c"
  by (auto simp: extends_with_def)

lemma extends_with_mono:
  "extends_with P a b \<Longrightarrow> (\<And>c. P c \<Longrightarrow> Q c) \<Longrightarrow> extends_with Q a b"
  by (auto simp: extends_with_def list_all_iff)

lemma extends_with_log2:
  "extends_with P hw hw1 \<Longrightarrow> P c \<Longrightarrow> extends_with P hw (log_call c hw1)"
  by (auto simp: extends_with_def)

lemma extends_with_issued:
  "extends_with P hw hw' \<Longrightarrow> events hw' = events hw @ issued hw hw' \<and> list_all P (issued hw hw')"
  by (auto simp: extends_with_def issued_def)

text \<open>Channel methods: calls on the handle of the stage.\<close>

lemma sensor_frame:
  "sensor h hw c = (r, hw', c') \<Longrightarrow> extends_with (\<lambda>q. handle_of q = Some h) hw hw'"
  by (auto simp: sensor_def split: prod.splits sum.splits dest!: ctl_str_hw intro: extends_with_log)

lemma is_sensor_linear_frame:
  "is_sensor_linear env h hw c = (r, hw', c') \<Longrightarrow> extends_with (\<lambda>q. handle_of q = Some h) hw hw'"
  by (auto simp: is_sensor_linear_def split: prod.splits sum.splits dest: sensor_frame)

lemma set_speed_frame:
  "set_speed v h hw c = (r, hw', c') \<Longrightarrow> extends_with (\<lambda>q. handle_of q = Some h) hw hw'"
  by (auto simp: set_speed_def split: prod.splits sum.splits dest!: ctl_unit_hw intro: extends_with_log)

lemma set_acceleration_frame:
  "set_acceleration v h hw c = (r, hw', c') \<Longrightarrow> extends_with (\<lambda>q. handle_of q = Some h) hw hw'"
  by (auto simp: set_acceleration_def split: prod.splits sum.splits dest!: ctl_unit_hw intro: extends_with_log)

lemma status_frame:
  "status h hw c = (r, hw', c') \<Longrightarrow> extends_with is_status_read hw hw'"
  by (auto simp: status_def split: prod.splits sum.splits dest!: ctl_int_hw intro: extends_with_log)

lemma humanized_status_frame:
  "humanized_status env h hw c = (r, hw', c') \<Longrightarrow> extends_with is_status_read hw hw'"
  by (auto simp: humanized_status_def Let_def split: prod.splits sum.splits if_splits dest: status_frame)

text \<open>The stage keeps its handle and its connection flag through a channel method.\<close>

lemma on_channel_frame:
  assumes m: "\<And>c r hw' c'. m (handle s) hw c = (r, hw', c') \<Longrightarrow> extends_with P hw hw'"
    and run: "on_channel ax m hw s = (r, hw', s')"
  shows "extends_with P hw hw' \<and> handle s' = handle s \<and> connected s' = connected s
           \<and> address s' = address s"
proof (cases "map_of (channels s) ax")
  case None
  with run show ?thesis by (auto simp: on_channel_def)
next
  case (Some c)
  obtain r1 hw1 c1 where r1: "m (handle s) hw c = (r1, hw1, c1)"
    by (cases "m (handle s) hw c") auto
  from run Some r1 have "hw' = hw1" "s' = s\<lparr>channels := AList.update ax c1 (channels s)\<rparr>"
    by (auto simp: on_channel_def)
  with m [OF r1] show ?thesis by simp
qed

lemma on_handle_refl [simp]: "on_handle hw s hw s"
  by (simp add: on_handle_def)

lemma on_handle_trans:
  "on_handle hw s hw1 s1 \<Longrightarrow> on_handle hw1 s1 hw2 s2 \<Longrightarrow> on_handle hw s hw2 s2"
  by (auto simp: on_handle_def intro: extends_with_trans)

lemma on_channel_on_handle:
  assumes "\<And>c r hw' c'. m (handle s) hw c = (r, hw', c')
             \<Longrightarrow> extends_with (\<lambda>q. handle_of q = Some (handle s)) hw hw'"
    and "on_channel ax m hw s = (r, hw', s')"
  shows "on_handle hw s hw' s'"
  using on_channel_frame [OF assms] by (simp add: on_handle_def)

lemma seq_on_handle:
  assumes a: "\<And>hw s r hw' s'. a hw s = (r, hw', s') \<Longrightarrow> on_handle hw s hw' s'"
    and b: "\<And>hw s r hw' s'. b hw s = (r, hw', s') \<Longrightarrow> on_handle hw s hw' s'"
    and run: "seq a b hw s = (r, hw', s')"
  shows "on_handle hw s hw' s'"
proof -
  obtain r1 hw1 s1 where r1: "a hw s = (r1, hw1, s1)" by (cases "a hw s") auto
  show ?thesis
  proof (cases r1)
    case (Inl e)
    with run r1 have "hw' = hw1" "s' = s1" by (auto simp: seq_def)
    with a [OF r1] show ?thesis by simp
  next
    case (Inr u)
    with run r1 have "b hw1 s1 = (r, hw', s')" by (auto simp: seq_def)
    from on_handle_trans [OF a [OF r1] b [OF this]] show ?thesis .
  qed
qed

lemma guarded_on_handle:
  assumes "\<And>hw s r hw' s'. m hw s = (r, hw', s') \<Longrightarrow> on_handle hw s hw' s'"
    and "assert_driver_loaded env (assert_stage_connected m) hw s = (r, hw', s')"
  shows "on_handle hw s hw' s'"
  using assms
  by (auto simp: assert_driver_loaded_def assert_stage_connected_def split: if_splits)

lemma set_speed_xy_on_handle:
  "set_speed_xy env v hw s = (r, hw', s') \<Longrightarrow> on_handle hw s hw' s'"
  unfolding set_speed_xy_def
  by (erule guarded_on_handle [rotated], erule seq_on_handle [rotated 2])
     (erule on_channel_on_handle [rotated], erule set_speed_frame)+

lemma set_speed_z_on_handle:
  "set_speed_z env v hw s = (r, hw', s') \<Longrightarrow> on_handle hw s hw' s'"
  unfolding set_speed_z_def
  by (erule guarded_on_handle [rotated])
     (erule on_channel_on_handle [rotated], erule set_speed_frame)

lemma set_acceleration_xy_on_handle:
  "set_acceleration_xy env v hw s = (r, hw', s') \<Longrightarrow> on_handle hw s hw' s'"
  unfolding set_acceleration_xy_def
  by (erule guarded_on_handle [rotated], erule seq_on_handle [rotated 2])
     (erule on_channel_on_handle [rotated], erule set_acceleration_frame)+

lemma sensor_check_on_handle:
  "sensor_check env axs hw s = (r, hw', s') \<Longrightarrow> on_handle hw s hw' s'"
proof (induction axs arbitrary: hw s)
  case Nil
  then show ?case by simp
next
  case (Cons ax axs)
  obtain r1 hw1 s1 where r1: "on_channel ax (is_sensor_linear env) hw s = (r1, hw1, s1)"
    by (cases "on_channel ax (is_sensor_linear env) hw s") auto
  have step: "on_handle hw s hw1 s1"
    by (rule on_channel_on_handle [OF _ r1]) (erule is_sensor_linear_frame)
  show ?case
  proof (cases "r1 = Inr True")
    case True
    with Cons.prems r1 have "sensor_check env axs hw1 s1 = (r, hw', s')" by simp
    from on_handle_trans [OF step Cons.IH [OF this]] show ?thesis .
  next
    case False
    with Cons.prems r1 have "hw' = hw1" "s' = s1"
      by (auto split: sum.splits if_splits)
    with step show ?thesis by simp
  qed
qed

lemma initialize_on_handle:
  assumes "initialize env hw s = (r, hw', s')"
  shows "on_handle hw s hw' s'"
proof -
  obtain r1 hw1 s1 where r1: "raise_if_sensor_non_linear env hw s = (r1, hw1, s1)"
    by (cases "raise_if_sensor_non_linear env hw s") auto
  then have step: "on_handle hw s hw1 s1"
    unfolding raise_if_sensor_non_linear_def by (rule sensor_check_on_handle)
  show ?thesis
  proof (cases r1)
    case (Inl e)
    with assms r1 have "hw' = hw1" "s' = s1" by (auto simp: initialize_def seq_def)
    with step show ?thesis by simp
  next
    case (Inr u)
    with assms r1
    have rest: "seq (set_speed_xy env 300) (seq (set_speed_z env 20) (set_acceleration_xy env 0))
                  hw1 (s1\<lparr>connected := True\<rparr>) = (r, hw', s')"
      by (auto simp: initialize_def seq_def)
    have "on_handle hw1 (s1\<lparr>connected := True\<rparr>) hw' s'"
      by (rule seq_on_handle [OF _ _ rest], erule set_speed_xy_on_handle,
          erule seq_on_handle [rotated 2], erule set_speed_z_on_handle,
          erule set_acceleration_xy_on_handle)
    moreover have "on_handle hw s hw1 (s1\<lparr>connected := True\<rparr>)"
      using step by (simp add: on_handle_def)
    ultimately show ?thesis by (rule on_handle_trans [rotated])
  qed
qed

section \<open>Properties of a channel\<close>

subsection \<open>The humanized status\<close>

lemma str_int_0: "str_int 0 = ''0''"
  by code_simp

lemma state_names_0: "state_names members 0 = []"
  by (induction members) (auto simp: state_names_def)

text \<open>
  Claim C9: whenever the read of the channel state returns, the humanized status is a
  list that is not empty, and for the status code 0 it is the single entry
  \<open>Unknown status code: 0\<close>: no flag has a bit in common with 0, whatever the members
  of \<^verbatim>\<open>ctl.ChannelState\<close> are, so the placeholder stands for the all-clear code too.
\<close>

theorem humanized_status_nonempty:
  assumes "raises hw (events hw) (GetProperty_i32 h (ch_handle c) CHANNEL_STATE) = None"
  shows "\<exists>names. fst (humanized_status env h hw c) = Inr names \<and> names \<noteq> []
     \<and> (ret_int hw (events hw) (GetProperty_i32 h (ch_handle c) CHANNEL_STATE) = 0
          \<longrightarrow> names = [''Unknown status code: 0''])"
proof -
  define code where "code = ret_int hw (events hw) (GetProperty_i32 h (ch_handle c) CHANNEL_STATE)"
  have st: "status h hw c
      = (Inr code, log_call (GetProperty_i32 h (ch_handle c) CHANNEL_STATE) hw,
         c\<lparr>ch_status := Some code\<rparr>)"
    using assms by (simp add: status_def ctl_int_def code_def)
  show ?thesis
  proof (cases "state_names (ChannelState env) code = []")
    case True
    then have "fst (humanized_status env h hw c) = Inr [''Unknown status code: '' @ str_int code]"
      by (simp add: humanized_status_def st)
    then show ?thesis
      unfolding code_def [symmetric] by (auto simp: str_int_0)
  next
    case False
    then have "fst (humanized_status env h hw c) = Inr (state_names (ChannelState env) code)"
      by (simp add: humanized_status_def st Let_def)
    moreover have "code \<noteq> 0" using False state_names_0 by metis
    ultimately show ?thesis
      unfolding code_def [symmetric] using False by simp
  qed
qed

theorem humanized_status_nonempty_witness:
  "raises (bench [] 1 (\<lambda>h. 2) (\<lambda>h. 0)) (events (bench [] 1 (\<lambda>h. 2) (\<lambda>h. 0)))
      (GetProperty_i32 (Some 1) (ch_handle (Channel_init 0 ''X'')) CHANNEL_STATE) = None
   \<and> fst (humanized_status bench_env (Some 1) (bench [] 1 (\<lambda>h. 2) (\<lambda>h. 0)) (Channel_init 0 ''X''))
       = Inr [''Unknown status code: 0'']"
proof -
  let ?B = "bench [] 1 (\<lambda>h. 2) (\<lambda>h. 0)"
  let ?q = "GetProperty_i32 (Some 1) (ch_handle (Channel_init 0 ''X'')) CHANNEL_STATE"
  have h: "raises ?B (events ?B) ?q = None" by (simp add: bench_def)
  have z: "ret_int ?B (events ?B) ?q = 0" by (simp add: bench_def)
  from humanized_status_nonempty [OF h, of bench_env] z h show ?thesis by auto
qed

subsection \<open>The movement mode\<close>

text \<open>
  Claim C8 states that every mode other than \<open>CL_RELATIVE\<close> and \<open>CL_ABSOLUTE\<close> is
  rejected. The guard of the setter is \<^verbatim>\<open>isinstance(mode, ctl.MoveMode)\<close>: it admits every
  member of the enumeration. The member \<open>STEP\<close> is accepted and sent to the hardware.
\<close>

theorem set_movement_mode_counterexample:
  "(case set_movement_mode (Member STEP) (Some 1) (bench [] 1 (\<lambda>h. 2) (\<lambda>h. 0)) (Channel_init 0 ''X'') of
      (r, hw', c') \<Rightarrow>
        r = Inr () \<and> events hw' = [SetProperty_i32 (Some 1) 0 MOVE_MODE STEP]
        \<and> ch_movement_mode c' = STEP)"
  by code_simp

text \<open>
  Claim C8, as the code has it: an object that is no member of \<^verbatim>\<open>ctl.MoveMode\<close> is
  rejected with ValueError, the binding and the channel untouched; a member, whichever
  it is, is sent to the hardware in one \<^verbatim>\<open>SetProperty_i32\<close> call.
\<close>

theorem set_movement_mode_guard:
  "set_movement_mode (Other obj) h hw c
     = (Inl (ValueError (''Invalid movement mode '' @ py_str obj)), hw, c)
   \<and> (\<exists>r c'. set_movement_mode (Member m) h hw c
          = (r, log_call (SetProperty_i32 h (ch_handle c) MOVE_MODE m) hw, c'))"
  by (auto simp: set_movement_mode_def ctl_unit_def split: option.splits)

section \<open>The life cycle of a stage\<close>

subsection \<open>The calls of the steps of connect\<close>

lemma handle_construct_channels [simp]:
  "handle (construct_channels env s) = handle s"
  "address (construct_channels env s) = address s"
  by (simp_all add: construct_channels_def)

lemma acquire_handle_secondary:
  "\<not> open_new_connection s \<Longrightarrow> acquire_handle hw s = (Inr (), hw, s\<lparr>handle := Some 1\<rparr>)"
  by (simp add: acquire_handle_def)

lemma acquire_handle_primary:
  assumes "open_new_connection s" "acquire_handle hw s = (r, hw1, s1)"
  shows "hw1 = log_call (Open (removesuffix ''_Ch1-3'' (address s))) hw"
    and "address s1 = address s"
    and "r = Inr () \<Longrightarrow> handle s1 = Some 1"
    and "raises hw (events hw) (Open (removesuffix ''_Ch1-3'' (address s))) = None
         \<Longrightarrow> ret_int hw (events hw) (Open (removesuffix ''_Ch1-3'' (address s))) \<noteq> 1
         \<Longrightarrow> r = Inl (StageError ''Expected the handle to be 1.'')"
  using assms
  by (auto simp: acquire_handle_def open_system_def ctl_int_def
        split: option.splits if_splits)

lemma acquire_handle_ok:
  "acquire_handle hw s = (Inr u, hw1, s1) \<Longrightarrow> handle s1 = Some 1"
  by (auto simp: acquire_handle_def open_system_def split: if_splits prod.splits sum.splits)

lemma connect_after_acquire:
  assumes "MCS_LOADED env" "\<not> connected s" "connect env hw s = (r, hw', s')"
    and acq: "acquire_handle hw s = (r1, hw1, s1)"
  shows "extends_with (\<lambda>q. handle_of q = Some (Some 1)) hw1 hw'"
    and "r1 \<noteq> Inr () \<Longrightarrow> r = map_sum id (\<lambda>u. True) r1"
proof -
  show "extends_with (\<lambda>q. handle_of q = Some (Some 1)) hw1 hw'"
  proof (cases r1)
    case (Inl e)
    with assms have "hw' = hw1"
      by (auto simp: connect_def assert_driver_loaded_def)
    then show ?thesis by simp
  next
    case (Inr u)
    with acq have h1: "handle s1 = Some 1" by (auto dest: acquire_handle_ok)
    obtain r2 hw2 s2 where i: "initialize env hw1 (construct_channels env s1) = (r2, hw2, s2)"
      by (cases "initialize env hw1 (construct_channels env s1)") auto
    from assms Inr h1 i have "hw' = hw2"
      by (auto simp: connect_def assert_driver_loaded_def split: sum.splits)
    with initialize_on_handle [OF i] h1 show ?thesis
      by (simp add: on_handle_def)
  qed
  show "r1 \<noteq> Inr () \<Longrightarrow> r = map_sum id (\<lambda>u. True) r1"
    using assms by (cases r1) (auto simp: connect_def assert_driver_loaded_def)
qed

lemma Stage_init_roles:
  assumes "Stage_init addr = Inr s"
  shows "address s = addr" "\<not> connected s" "handle s = None" "channels s = []"
    and "open_new_connection s \<longleftrightarrow> py_in ''Ch1-3'' addr"
    and "\<not> open_new_connection s \<Longrightarrow> py_in ''Ch4-6'' addr"
  using assms by (auto simp: Stage_init_def split: if_splits)

subsection \<open>A connect that succeeds\<close>

lemma extends_with_length:
  "extends_with P hw hw' \<Longrightarrow> length (events hw) \<le> length (events hw')"
  by (auto simp: extends_with_def)

lemma on_handle_length:
  "on_handle hw s hw' s' \<Longrightarrow> length (events hw) \<le> length (events hw')"
  by (auto simp: on_handle_def dest: extends_with_length)

lemma seq_ok:
  assumes "seq a b hw s = (Inr u, hw', s')"
  obtains v hw1 s1 where "a hw s = (Inr v, hw1, s1)" "b hw1 s1 = (Inr u, hw', s')"
  using assms by (auto simp: seq_def split: prod.splits sum.splits)

lemma guarded_ok:
  assumes "assert_driver_loaded env (assert_stage_connected m) hw s = (Inr u, hw', s')"
  shows "m hw s = (Inr u, hw', s')" "connected s"
  using assms
  by (auto simp: assert_driver_loaded_def assert_stage_connected_def split: if_splits)

lemma on_channel_set_acceleration_ok:
  assumes "on_channel ax (set_acceleration v) hw s = (Inr u, hw', s')"
  shows "length (events hw) < length (events hw')" "connected s' = connected s"
  using assms
  by (auto simp: on_channel_def set_acceleration_def ctl_unit_def
        split: option.splits sum.splits prod.splits)

lemma on_channel_connected:
  "on_channel ax m hw s = (r, hw', s') \<Longrightarrow> connected s' = connected s"
  by (auto simp: on_channel_def split: option.splits prod.splits)

lemma set_speed_xy_connected:
  "set_speed_xy env v hw s = (r, hw', s') \<Longrightarrow> connected s' = connected s"
  by (auto simp: set_speed_xy_def assert_driver_loaded_def assert_stage_connected_def seq_def
        split: if_splits prod.splits sum.splits dest: on_channel_connected)

lemma set_speed_z_connected:
  "set_speed_z env v hw s = (r, hw', s') \<Longrightarrow> connected s' = connected s"
  by (auto simp: set_speed_z_def assert_driver_loaded_def assert_stage_connected_def
        split: if_splits dest: on_channel_connected)

lemma set_acceleration_xy_ok:
  assumes "set_acceleration_xy env v hw s = (Inr u, hw', s')"
  shows "length (events hw) < length (events hw')" "connected s'"
proof -
  from guarded_ok [OF assms [unfolded set_acceleration_xy_def]]
  have run: "seq (on_channel X (set_acceleration v)) (on_channel Y (set_acceleration v)) hw s
      = (Inr u, hw', s')" and c: "connected s" by simp_all
  from run obtain w hw1 s1
    where 1: "on_channel X (set_acceleration v) hw s = (Inr w, hw1, s1)"
      and 2: "on_channel Y (set_acceleration v) hw1 s1 = (Inr u, hw', s')"
    by (rule seq_ok)
  from on_channel_set_acceleration_ok [OF 1] on_channel_set_acceleration_ok [OF 2] c
  show "length (events hw) < length (events hw')" "connected s'" by simp_all
qed

lemma initialize_ok:
  assumes "initialize env hw s = (Inr u, hw', s')"
  shows "length (events hw) < length (events hw')" "connected s'"
proof -
  from assms [unfolded initialize_def] obtain v hw1 s1
    where 1: "raise_if_sensor_non_linear env hw s = (Inr v, hw1, s1)"
      and rest: "seq (set_speed_xy env 300) (seq (set_speed_z env 20) (set_acceleration_xy env 0))
                  hw1 (s1\<lparr>connected := True\<rparr>) = (Inr u, hw', s')"
    by (rule seq_ok)
  from rest obtain v2 hw2 s2
    where 2: "set_speed_xy env 300 hw1 (s1\<lparr>connected := True\<rparr>) = (Inr v2, hw2, s2)"
      and rest2: "seq (set_speed_z env 20) (set_acceleration_xy env 0) hw2 s2 = (Inr u, hw', s')"
    by (rule seq_ok)
  from rest2 obtain v3 hw3 s3
    where 3: "set_speed_z env 20 hw2 s2 = (Inr v3, hw3, s3)"
      and 4: "set_acceleration_xy env 0 hw3 s3 = (Inr u, hw', s')"
    by (rule seq_ok)
  have "length (events hw) \<le> length (events hw1)"
    using 1 unfolding raise_if_sensor_non_linear_def
    by (rule on_handle_length [OF sensor_check_on_handle])
  moreover have "length (events hw1) \<le> length (events hw2)"
    by (rule on_handle_length [OF set_speed_xy_on_handle [OF 2]])
  moreover have "length (events hw2) \<le> length (events hw3)"
    by (rule on_handle_length [OF set_speed_z_on_handle [OF 3]])
  ultimately show "length (events hw) < length (events hw')"
    using set_acceleration_xy_ok(1) [OF 4] by simp
  show "connected s'" by (rule set_acceleration_xy_ok(2) [OF 4])
qed

lemma connect_ok:
  assumes "MCS_LOADED env" "\<not> connected s" "connect env hw s = (Inr b, hw', s')"
  shows "b" "connected s'" "handle s' = Some 1" "address s' = address s"
    and "\<exists>hw1 s1. acquire_handle hw s = (Inr (), hw1, s1)
           \<and> length (events hw1) < length (events hw')"
proof -
  obtain r1 hw1 s1 where acq: "acquire_handle hw s = (r1, hw1, s1)"
    by (cases "acquire_handle hw s") auto
  from assms acq have r1: "r1 = Inr ()"
    by (cases r1) (auto simp: connect_def assert_driver_loaded_def)
  with acq have h1: "handle s1 = Some 1" by (auto dest: acquire_handle_ok)
  have a1: "address s1 = address s"
    using acq by (auto simp: acquire_handle_def split: if_splits prod.splits sum.splits)
  obtain r2 hw2 s2 where i: "initialize env hw1 (construct_channels env s1) = (r2, hw2, s2)"
    by (cases "initialize env hw1 (construct_channels env s1)") auto
  from assms acq r1 h1 i obtain u where ok: "r2 = Inr u" "hw' = hw2" "s' = s2" "b = connected s2"
    by (cases r2) (auto simp: connect_def assert_driver_loaded_def)
  note io = initialize_ok [OF i [unfolded ok(1)]]
  from initialize_on_handle [OF i] h1 a1
  have "handle s2 = Some 1" "address s2 = address s" by (simp_all add: on_handle_def)
  with io ok show "b" "connected s'" "handle s' = Some 1" "address s' = address s" by simp_all
  from acq r1 io(1) ok(2)
  show "\<exists>hw1 s1. acquire_handle hw s = (Inr (), hw1, s1)
           \<and> length (events hw1) < length (events hw')" by auto
qed

lemma acquire_handle_primary_ok:
  assumes "open_new_connection s" "acquire_handle hw s = (Inr u, hw1, s1)"
  shows "raises hw (events hw) (Open (removesuffix ''_Ch1-3'' (address s))) = None"
    and "ret_int hw (events hw) (Open (removesuffix ''_Ch1-3'' (address s))) = 1"
  using assms
  by (auto simp: acquire_handle_def open_system_def ctl_int_def
        split: option.splits if_splits)

subsection \<open>Opening or borrowing the session\<close>

text \<open>
  Claim C2: on a disconnected stage with the driver loaded, \<^verbatim>\<open>connect\<close> of a primary
  stage first calls \<^verbatim>\<open>Open\<close> on the locator (the address without \<open>_Ch1-3\<close>), and when
  that call returns a handle other than 1 the result is the StageError
  \<open>Expected the handle to be 1.\<close>; when \<^verbatim>\<open>connect\<close> succeeds, \<^verbatim>\<open>Open\<close> has returned 1 and
  the stage is connected with the handle 1. \<^verbatim>\<open>connect\<close> of a secondary stage takes the
  handle 1 without touching the binding and issues no \<^verbatim>\<open>Open\<close> at all; every call it
  issues carries the handle 1, and when it succeeds it has issued calls and the stage is
  connected with the handle 1. A stage is primary when its address contains \<open>Ch1-3\<close>
  (\<open>Stage_init_roles\<close>), secondary when it does not and contains \<open>Ch4-6\<close>.
\<close>

theorem connect_handle_protocol:
  assumes "MCS_LOADED env" "\<not> connected s" "connect env hw s = (r, hw', s')"
  shows "(open_new_connection s \<longrightarrow>
            (\<exists>cs. issued hw hw' = Open (removesuffix ''_Ch1-3'' (address s)) # cs)
            \<and> (raises hw (events hw) (Open (removesuffix ''_Ch1-3'' (address s))) = None
               \<and> ret_int hw (events hw) (Open (removesuffix ''_Ch1-3'' (address s))) \<noteq> 1
               \<longrightarrow> r = Inl (StageError ''Expected the handle to be 1.''))
            \<and> (\<forall>b. r = Inr b \<longrightarrow>
                  b \<and> connected s' \<and> handle s' = Some 1
                  \<and> raises hw (events hw) (Open (removesuffix ''_Ch1-3'' (address s))) = None
                  \<and> ret_int hw (events hw) (Open (removesuffix ''_Ch1-3'' (address s))) = 1))
       \<and> (\<not> open_new_connection s \<longrightarrow>
            acquire_handle hw s = (Inr (), hw, s\<lparr>handle := Some 1\<rparr>)
            \<and> list_all (\<lambda>q. handle_of q = Some (Some 1)) (issued hw hw')
            \<and> \<not> list_ex is_Open (issued hw hw')
            \<and> (\<forall>b. r = Inr b \<longrightarrow>
                  b \<and> connected s' \<and> handle s' = Some 1 \<and> issued hw hw' \<noteq> []))"
proof (cases "open_new_connection s")
  case True
  let ?open = "Open (removesuffix ''_Ch1-3'' (address s))"
  obtain r1 hw1 s1 where acq: "acquire_handle hw s = (r1, hw1, s1)"
    by (cases "acquire_handle hw s") auto
  note p = acquire_handle_primary [OF True acq]
  from connect_after_acquire(1) [OF assms acq]
  obtain cs where cs: "events hw' = events hw1 @ cs" by (auto simp: extends_with_def)
  then have first: "\<exists>cs. issued hw hw' = ?open # cs" by (simp add: p(1) issued_def)
  have mismatch: "raises hw (events hw) ?open = None \<and> ret_int hw (events hw) ?open \<noteq> 1
      \<longrightarrow> r = Inl (StageError ''Expected the handle to be 1.'')"
  proof (intro impI, elim conjE)
    assume "raises hw (events hw) ?open = None" "ret_int hw (events hw) ?open \<noteq> 1"
    from p(4) [OF this] have r1: "r1 = Inl (StageError ''Expected the handle to be 1.'')" .
    with connect_after_acquire(2) [OF assms acq]
    show "r = Inl (StageError ''Expected the handle to be 1.'')" by simp
  qed
  have success: "\<forall>b. r = Inr b \<longrightarrow>
      b \<and> connected s' \<and> handle s' = Some 1
      \<and> raises hw (events hw) ?open = None \<and> ret_int hw (events hw) ?open = 1"
  proof (intro allI impI)
    fix b assume ok: "r = Inr b"
    note c = connect_ok [OF assms(1,2) assms(3) [unfolded ok]]
    from c(5) obtain hw2 s2 where "acquire_handle hw s = (Inr (), hw2, s2)" by blast
    note q = acquire_handle_primary_ok [OF True this]
    show "b \<and> connected s' \<and> handle s' = Some 1
      \<and> raises hw (events hw) ?open = None \<and> ret_int hw (events hw) ?open = 1"
      by (intro conjI) (rule c(1), rule c(2), rule c(3), rule q(1), rule q(2))
  qed
  show ?thesis
  proof (rule conjI)
    show "open_new_connection s \<longrightarrow>
            (\<exists>cs. issued hw hw' = ?open # cs)
            \<and> (raises hw (events hw) ?open = None \<and> ret_int hw (events hw) ?open \<noteq> 1
               \<longrightarrow> r = Inl (StageError ''Expected the handle to be 1.''))
            \<and> (\<forall>b. r = Inr b \<longrightarrow>
                  b \<and> connected s' \<and> handle s' = Some 1
                  \<and> raises hw (events hw) ?open = None \<and> ret_int hw (events hw) ?open = 1)"
      by (rule impI, intro conjI) (rule first, rule mismatch, rule success)
    show "\<not> open_new_connection s \<longrightarrow>
            acquire_handle hw s = (Inr (), hw, s\<lparr>handle := Some 1\<rparr>)
            \<and> list_all (\<lambda>q. handle_of q = Some (Some 1)) (issued hw hw')
            \<and> \<not> list_ex is_Open (issued hw hw')
            \<and> (\<forall>b. r = Inr b \<longrightarrow>
                  b \<and> connected s' \<and> handle s' = Some 1 \<and> issued hw hw' \<noteq> [])"
      using True by (simp only: not_True_eq_False simp_thms)
  qed
next
  case False
  note acq = acquire_handle_secondary [OF False, of hw]
  from connect_after_acquire(1) [OF assms acq]
  have ext: "extends_with (\<lambda>q. handle_of q = Some (Some 1)) hw hw'" .
  then have all: "list_all (\<lambda>q. handle_of q = Some (Some 1)) (issued hw hw')"
    by (simp add: extends_with_issued)
  have "\<not> is_Open q" if "handle_of q = Some (Some 1)" for q
    using that by (cases q) auto
  with all have none: "\<not> list_ex is_Open (issued hw hw')"
    by (auto simp: list_all_iff list_ex_iff)
  have success: "\<forall>b. r = Inr b \<longrightarrow>
      b \<and> connected s' \<and> handle s' = Some 1 \<and> issued hw hw' \<noteq> []"
  proof (intro allI impI)
    fix b assume ok: "r = Inr b"
    note c = connect_ok [OF assms(1,2) assms(3) [unfolded ok]]
    from c(5) acq have "length (events hw) < length (events hw')" by simp
    then have ne: "issued hw hw' \<noteq> []" by (simp add: issued_def)
    show "b \<and> connected s' \<and> handle s' = Some 1 \<and> issued hw hw' \<noteq> []"
      by (intro conjI) (rule c(1), rule c(2), rule c(3), rule ne)
  qed
  show ?thesis
  proof (rule conjI)
    show "open_new_connection s \<longrightarrow>
            (\<exists>cs. issued hw hw' = Open (removesuffix ''_Ch1-3'' (address s)) # cs)
            \<and> (raises hw (events hw) (Open (removesuffix ''_Ch1-3'' (address s))) = None
               \<and> ret_int hw (events hw) (Open (removesuffix ''_Ch1-3'' (address s))) \<noteq> 1
               \<longrightarrow> r = Inl (StageError ''Expected the handle to be 1.''))
            \<and> (\<forall>b. r = Inr b \<longrightarrow>
                  b \<and> connected s' \<and> handle s' = Some 1
                  \<and> raises hw (events hw) (Open (removesuffix ''_Ch1-3'' (address s))) = None
                  \<and> ret_int hw (events hw) (Open (removesuffix ''_Ch1-3'' (address s))) = 1)"
      using False by (simp only: simp_thms)
    show "\<not> open_new_connection s \<longrightarrow>
            acquire_handle hw s = (Inr (), hw, s\<lparr>handle := Some 1\<rparr>)
            \<and> list_all (\<lambda>q. handle_of q = Some (Some 1)) (issued hw hw')
            \<and> \<not> list_ex is_Open (issued hw hw')
            \<and> (\<forall>b. r = Inr b \<longrightarrow>
                  b \<and> connected s' \<and> handle s' = Some 1 \<and> issued hw hw' \<noteq> [])"
      by (rule impI, intro conjI) (rule acq, rule all, rule none, rule success)
  qed
qed

theorem connect_handle_protocol_witness:
  "MCS_LOADED bench_env \<and> \<not> connected secondary_stage \<and> \<not> open_new_connection secondary_stage
   \<and> (\<exists>hw' s'. connect bench_env (bench [] 1 (\<lambda>h. 2) (\<lambda>h. 0)) secondary_stage = (Inr True, hw', s')
         \<and> list_all (\<lambda>q. handle_of q = Some (Some 1)) (issued (bench [] 1 (\<lambda>h. 2) (\<lambda>h. 0)) hw')
         \<and> \<not> list_ex is_Open (issued (bench [] 1 (\<lambda>h. 2) (\<lambda>h. 0)) hw')
         \<and> issued (bench [] 1 (\<lambda>h. 2) (\<lambda>h. 0)) hw' \<noteq> []
         \<and> connected s' \<and> handle s' = Some 1)
   \<and> \<not> connected primary_stage \<and> open_new_connection primary_stage
   \<and> (\<exists>hw' s' cs. connect bench_env (bench [] 2 (\<lambda>h. 2) (\<lambda>h. 0)) primary_stage
           = (Inl (StageError ''Expected the handle to be 1.''), hw', s')
         \<and> issued (bench [] 2 (\<lambda>h. 2) (\<lambda>h. 0)) hw' = Open ''LOC1'' # cs)
   \<and> (\<exists>hw' s' cs. connect bench_env (bench [] 1 (\<lambda>h. 2) (\<lambda>h. 0)) primary_stage
           = (Inr True, hw', s')
         \<and> issued (bench [] 1 (\<lambda>h. 2) (\<lambda>h. 0)) hw' = Open ''LOC1'' # cs
         \<and> connected s' \<and> handle s' = Some 1)"
proof -
  let ?B = "bench [] 1 (\<lambda>h. 2) (\<lambda>h. 0)" and ?B2 = "bench [] 2 (\<lambda>h. 2) (\<lambda>h. 0)"
  have env: "MCS_LOADED bench_env" by (simp add: bench_env_def)
  have sec: "\<not> connected secondary_stage" "\<not> open_new_connection secondary_stage"
    by (simp_all add: secondary_stage_def)
  have pri: "\<not> connected primary_stage" "open_new_connection primary_stage"
    by (simp_all add: primary_stage_def)
  have loc: "removesuffix ''_Ch1-3'' (address primary_stage) = ''LOC1''" by code_simp
  have ans: "raises ?B2 (events ?B2) (Open ''LOC1'') = None
           \<and> ret_int ?B2 (events ?B2) (Open ''LOC1'') \<noteq> 1"
    by (simp add: bench_def)
  have one: "\<exists>hw' s'. connect bench_env ?B secondary_stage = (Inr True, hw', s')
         \<and> list_all (\<lambda>q. handle_of q = Some (Some 1)) (issued ?B hw')
         \<and> \<not> list_ex is_Open (issued ?B hw')
         \<and> issued ?B hw' \<noteq> []
         \<and> connected s' \<and> handle s' = Some 1"
  proof -
    obtain r hw' s' where c: "connect bench_env ?B secondary_stage = (r, hw', s')"
      by (rule prod_cases3)
    have "fst (connect bench_env ?B secondary_stage) = Inr True" by code_simp
    with c have r: "r = Inr True" by simp
    note t = connect_handle_protocol [OF env sec(1) c, THEN conjunct2, THEN mp, OF sec(2)]
    from t have a: "list_all (\<lambda>q. handle_of q = Some (Some 1)) (issued ?B hw')"
      by (elim conjE)
    from t have b: "\<not> list_ex is_Open (issued ?B hw')"
      by (elim conjE)
    from t have "\<forall>b. r = Inr b \<longrightarrow>
        b \<and> connected s' \<and> handle s' = Some 1 \<and> issued ?B hw' \<noteq> []"
      by (elim conjE)
    from this [THEN spec, THEN mp, OF r]
    have d: "connected s'" "handle s' = Some 1" "issued ?B hw' \<noteq> []"
      by simp_all
    have "connect bench_env ?B secondary_stage = (Inr True, hw', s')
         \<and> list_all (\<lambda>q. handle_of q = Some (Some 1)) (issued ?B hw')
         \<and> \<not> list_ex is_Open (issued ?B hw')
         \<and> issued ?B hw' \<noteq> []
         \<and> connected s' \<and> handle s' = Some 1"
      by (intro conjI) (rule c [unfolded r], rule a, rule b, rule d(3), rule d(1), rule d(2))
    then show ?thesis by (intro exI)
  qed
  have two: "\<exists>hw' s' cs. connect bench_env ?B2 primary_stage
           = (Inl (StageError ''Expected the handle to be 1.''), hw', s')
         \<and> issued ?B2 hw' = Open ''LOC1'' # cs"
  proof -
    obtain r2 hw2 s2 where c2: "connect bench_env ?B2 primary_stage = (r2, hw2, s2)"
      by (rule prod_cases3)
    note t = connect_handle_protocol [OF env pri(1) c2, THEN conjunct1, THEN mp, OF pri(2),
        unfolded loc]
    from t obtain cs where cs: "issued ?B2 hw2 = Open ''LOC1'' # cs"
      by (elim conjE exE)
    from t have "raises ?B2 (events ?B2) (Open ''LOC1'') = None
           \<and> ret_int ?B2 (events ?B2) (Open ''LOC1'') \<noteq> 1
           \<longrightarrow> r2 = Inl (StageError ''Expected the handle to be 1.'')"
      by (elim conjE)
    from this [THEN mp, OF ans] have r2: "r2 = Inl (StageError ''Expected the handle to be 1.'')" .
    have "connect bench_env ?B2 primary_stage
           = (Inl (StageError ''Expected the handle to be 1.''), hw2, s2)
         \<and> issued ?B2 hw2 = Open ''LOC1'' # cs"
      by (intro conjI) (rule c2 [unfolded r2], rule cs)
    then show ?thesis by (intro exI)
  qed
  have three: "\<exists>hw' s' cs. connect bench_env ?B primary_stage = (Inr True, hw', s')
         \<and> issued ?B hw' = Open ''LOC1'' # cs
         \<and> connected s' \<and> handle s' = Some 1"
  proof -
    obtain r3 hw3 s3 where c3: "connect bench_env ?B primary_stage = (r3, hw3, s3)"
      by (rule prod_cases3)
    have "fst (connect bench_env ?B primary_stage) = Inr True" by code_simp
    with c3 have r3: "r3 = Inr True" by simp
    note t = connect_handle_protocol [OF env pri(1) c3, THEN conjunct1, THEN mp, OF pri(2),
        unfolded loc]
    from t obtain cs where cs: "issued ?B hw3 = Open ''LOC1'' # cs"
      by (elim conjE exE)
    from t have "\<forall>b. r3 = Inr b \<longrightarrow>
        b \<and> connected s3 \<and> handle s3 = Some 1
        \<and> raises ?B (events ?B) (Open ''LOC1'') = None
        \<and> ret_int ?B (events ?B) (Open ''LOC1'') = 1"
      by (elim conjE)
    from this [THEN spec, THEN mp, OF r3]
    have d: "connected s3" "handle s3 = Some 1"
      by simp_all
    have "connect bench_env ?B primary_stage = (Inr True, hw3, s3)
         \<and> issued ?B hw3 = Open ''LOC1'' # cs
         \<and> connected s3 \<and> handle s3 = Some 1"
      by (intro conjI) (rule c3 [unfolded r3], rule cs, rule d(1), rule d(2))
    then show ?thesis by (intro exI)
  qed
  show ?thesis
    by (intro conjI) (rule env, rule sec(1), rule sec(2), rule one, rule pri(1), rule pri(2),
        rule two, rule three)
qed

subsection \<open>Failure of connect\<close>

text \<open>
  A failure inside the \<^verbatim>\<open>try\<close> of \<^verbatim>\<open>connect\<close> (a sensor that is not linear, an exception
  of the binding, an exception while the default speeds and the acceleration are set)
  is rolled back: the stage is disconnected, without handle, without channels.
\<close>

lemma connect_failure_in_try_rolls_back:
  assumes "acquire_handle hw s = (Inr (), hw1, s1)" "connect env hw s = (Inl e, hw', s')"
    and "\<not> connected s" "MCS_LOADED env"
  shows "\<not> connected s' \<and> handle s' = None \<and> channels s' = []"
proof -
  from assms(1) have h1: "handle s1 = Some 1" by (rule acquire_handle_ok)
  obtain r2 hw2 s2 where i: "initialize env hw1 (construct_channels env s1) = (r2, hw2, s2)"
    by (cases "initialize env hw1 (construct_channels env s1)") auto
  from assms h1 i show ?thesis
    by (auto simp: connect_def assert_driver_loaded_def split: if_splits sum.splits)
qed

text \<open>
  Claim C1 states the same of every failure. The test of the handle (line 296) stands
  before the \<^verbatim>\<open>try\<close>: when \<^verbatim>\<open>Open\<close> returns the handle 2, \<^verbatim>\<open>connect\<close> raises the
  StageError and the stage keeps the handle 2.
\<close>

theorem connect_handle_mismatch_keeps_handle:
  "(case connect bench_env (bench [] 2 (\<lambda>h. 2) (\<lambda>h. 0)) primary_stage of
      (r, hw', s') \<Rightarrow>
        r = Inl (StageError ''Expected the handle to be 1.'')
        \<and> events hw' = [Open ''LOC1'']
        \<and> handle s' = Some 2 \<and> \<not> connected s' \<and> channels s' = [])"
  by code_simp

subsection \<open>Disconnecting\<close>

text \<open>
  Claim C7: \<^verbatim>\<open>disconnect\<close> of a secondary stage leaves the binding as it is, so it
  issues no call and no \<^verbatim>\<open>Close\<close>; on a connected stage it only clears the connection
  flag and the handle. A connected primary stage issues exactly the \<^verbatim>\<open>Close\<close> of its
  handle.
\<close>

theorem disconnect_secondary_never_closes:
  assumes "disconnect env hw s = (r, hw', s')"
  shows "(\<not> open_new_connection s \<longrightarrow>
            hw' = hw
            \<and> (MCS_LOADED env \<and> connected s \<longrightarrow>
                 r = Inr () \<and> s' = s\<lparr>connected := False, handle := None\<rparr>))
       \<and> (open_new_connection s \<and> MCS_LOADED env \<and> connected s \<longrightarrow>
            events hw' = events hw @ [Close (handle s)])"
  using assms
  by (auto simp: disconnect_def assert_driver_loaded_def assert_stage_connected_def
        ctl_unit_def log_call_def split: if_splits option.splits)

theorem disconnect_secondary_never_closes_witness:
  "\<not> open_new_connection (connected_stage False) \<and> MCS_LOADED bench_env
   \<and> connected (connected_stage False)
   \<and> (\<exists>hw' s'. disconnect bench_env (bench [] 1 (\<lambda>h. 2) (\<lambda>h. 0)) (connected_stage False)
                  = (Inr (), hw', s')
         \<and> events hw' = [] \<and> \<not> connected s' \<and> handle s' = None)"
proof -
  let ?B = "bench [] 1 (\<lambda>h. 2) (\<lambda>h. 0)"
  obtain r hw' s' where d: "disconnect bench_env ?B (connected_stage False) = (r, hw', s')"
    by (cases "disconnect bench_env ?B (connected_stage False)") auto
  have a: "\<not> open_new_connection (connected_stage False)" by (simp add: connected_stage_def)
  have b: "MCS_LOADED bench_env" by (simp add: bench_env_def)
  have c: "connected (connected_stage False)" by (simp add: connected_stage_def)
  from disconnect_secondary_never_closes [OF d] a b c
  have "hw' = ?B" "r = Inr ()" "s' = (connected_stage False)\<lparr>connected := False, handle := None\<rparr>"
    by auto
  with d a b c show ?thesis by (simp add: bench_def)
qed

section \<open>Movement\<close>

subsection \<open>The move calls of the commands\<close>

lemma issues_moves_refl: "r \<noteq> Inr () \<or> expected = [] \<Longrightarrow> issues_moves expected r hw hw"
  by (auto simp: issues_moves_def)

lemma issues_moves_fail:
  "issues_moves e1 (Inl e) hw hw' \<Longrightarrow> issues_moves (e1 @ e2) (Inl e) hw hw'"
  by (auto simp: issues_moves_def intro: prefix_prefix)

lemma issues_moves_then:
  assumes "issues_moves e1 (Inr ()) hw hw1" "issues_moves e2 r hw1 hw2"
  shows "issues_moves (e1 @ e2) r hw hw2"
proof -
  from assms(1) obtain cs1 where 1: "events hw1 = events hw @ cs1" "filter is_Move cs1 = e1"
    by (auto simp: issues_moves_def)
  from assms(2) obtain cs2 where 2: "events hw2 = events hw1 @ cs2"
    "prefix (filter is_Move cs2) e2" "r = Inr () \<longrightarrow> filter is_Move cs2 = e2"
    by (auto simp: issues_moves_def)
  have "events hw2 = events hw @ (cs1 @ cs2)" using 1 2 by simp
  moreover have "prefix (filter is_Move (cs1 @ cs2)) (e1 @ e2)" using 1 2 by simp
  moreover have "r = Inr () \<longrightarrow> filter is_Move (cs1 @ cs2) = e1 @ e2" using 1 2 by simp
  ultimately show ?thesis unfolding issues_moves_def by blast
qed

lemma issues_moves_quiet:
  assumes "issues_moves e1 (Inr ()) hw hw1" "extends_with (\<lambda>q. \<not> is_Move q) hw1 hw2"
  shows "issues_moves e1 r hw hw2"
proof -
  from assms(2) obtain cs where "events hw2 = events hw1 @ cs" "filter is_Move cs = []"
    by (auto simp: extends_with_def list_all_iff filter_empty_conv)
  then have "issues_moves [] r hw1 hw2" by (auto simp: issues_moves_def)
  from issues_moves_then [OF assms(1) this] show ?thesis by simp
qed

lemma issues_moves_issued:
  assumes "issues_moves expected r hw hw'"
  shows "prefix (filter is_Move (issued hw hw')) expected
       \<and> (r = Inr () \<longrightarrow> filter is_Move (issued hw hw') = expected)"
  using assms by (auto simp: issues_moves_def issued_def)

lemma same_layout_refl [simp]: "same_layout s s"
  by (simp add: same_layout_def)

lemma same_layout_trans: "same_layout a b \<Longrightarrow> same_layout b c \<Longrightarrow> same_layout a c"
  by (simp add: same_layout_def)

lemma move_call_layout:
  assumes "same_layout s s'"
  shows "move_call s' ax t = move_call s ax t"
proof -
  from assms have h: "handle s' = handle s"
    and "map_option ch_handle (map_of (channels s') ax) = map_option ch_handle (map_of (channels s) ax)"
    by (auto simp: same_layout_def dest: fun_cong)
  then show ?thesis
    by (auto simp: move_call_def split: option.splits sum.splits)
qed

lemma set_movement_mode_trace:
  assumes "set_movement_mode (Member m) h hw c = (r, hw', c')"
  shows "hw' = log_call (SetProperty_i32 h (ch_handle c) MOVE_MODE m) hw" "ch_handle c' = ch_handle c"
  using assms by (auto simp: set_movement_mode_def ctl_unit_def split: option.splits)

lemma move_trace:
  assumes "move v (Member m) h hw c = (r, hw', c')"
  shows "ch_handle c' = ch_handle c"
    and "issues_moves (case to_picometer v of Inl e \<Rightarrow> [] | Inr pm \<Rightarrow> [Move h (ch_handle c) pm])
           r hw hw'"
proof -
  obtain r1 hw1 c1 where sm: "set_movement_mode (Member m) h hw c = (r1, hw1, c1)"
    by (cases "set_movement_mode (Member m) h hw c") auto
  note t = set_movement_mode_trace [OF sm]
  show "ch_handle c' = ch_handle c"
    using assms sm t(2)
    by (auto simp: move_def split: sum.splits prod.splits)
  show "issues_moves (case to_picometer v of Inl e \<Rightarrow> [] | Inr pm \<Rightarrow> [Move h (ch_handle c) pm])
           r hw hw'"
  proof (cases r1)
    case (Inl e)
    with assms sm have "r = Inl e" "hw' = hw1" by (auto simp: move_def)
    then show ?thesis
      unfolding issues_moves_def t(1)
      by (intro exI [of _ "[SetProperty_i32 h (ch_handle c) MOVE_MODE m]"]) simp
  next
    case (Inr u)
    show ?thesis
    proof (cases "to_picometer v")
      case (Inl e)
      with assms sm Inr have "r = Inl e" "hw' = hw1" by (auto simp: move_def)
      then show ?thesis
        unfolding issues_moves_def t(1) Inl
        by (intro exI [of _ "[SetProperty_i32 h (ch_handle c) MOVE_MODE m]"]) simp
    next
      case pm: (Inr pm)
      with assms sm Inr have "hw' = log_call (Move h (ch_handle c) pm) hw1"
        using t(2) by (auto simp: move_def split: prod.splits dest: ctl_unit_hw)
      then show ?thesis
        unfolding issues_moves_def t(1) pm
        by (intro exI [of _ "[SetProperty_i32 h (ch_handle c) MOVE_MODE m, Move h (ch_handle c) pm]"])
           simp
    qed
  qed
qed

lemma on_channel_layout:
  assumes m: "\<And>c r hw' c'. m (handle s) hw c = (r, hw', c') \<Longrightarrow> ch_handle c' = ch_handle c"
    and run: "on_channel ax m hw s = (r, hw', s')"
  shows "same_layout s s'"
proof (cases "map_of (channels s) ax")
  case None
  with run show ?thesis by (auto simp: on_channel_def)
next
  case (Some c)
  obtain r1 hw1 c1 where r1: "m (handle s) hw c = (r1, hw1, c1)"
    by (cases "m (handle s) hw c") auto
  from run Some r1 have s': "s' = s\<lparr>channels := AList.update ax c1 (channels s)\<rparr>"
    by (auto simp: on_channel_def)
  from m [OF r1] Some show ?thesis
    unfolding s' same_layout_def by (auto simp: update_conv' fun_eq_iff)
qed

lemma move_to_trace:
  assumes "move_to ax t hw s = (r, hw', s')"
  shows "same_layout s s'" and "issues_moves (move_call s ax t) r hw hw'"
    and "r = Inr () \<Longrightarrow> t \<noteq> None \<Longrightarrow> map_of (channels s) ax \<noteq> None"
proof -
  show "same_layout s s'"
  proof (cases t)
    case None
    with assms show ?thesis by (simp add: move_to_def skip_def)
  next
    case (Some v)
    with assms have "on_channel ax (move v (Member CL_ABSOLUTE)) hw s = (r, hw', s')"
      by (simp add: move_to_def)
    then show ?thesis by (rule on_channel_layout [rotated]) (erule move_trace(1))
  qed
  show "issues_moves (move_call s ax t) r hw hw'"
  proof (cases t)
    case None
    with assms show ?thesis
      by (auto simp: move_to_def skip_def move_call_def intro: issues_moves_refl)
  next
    case (Some v)
    with assms have run: "on_channel ax (move v (Member CL_ABSOLUTE)) hw s = (r, hw', s')"
      by (simp add: move_to_def)
    show ?thesis
    proof (cases "map_of (channels s) ax")
      case None
      with run have "r = Inl KeyError" "hw' = hw" by (auto simp: on_channel_def)
      then show ?thesis by (simp add: issues_moves_refl)
    next
      case c: (Some c)
      obtain r1 hw1 c1 where r1: "move v (Member CL_ABSOLUTE) (handle s) hw c = (r1, hw1, c1)"
        by (cases "move v (Member CL_ABSOLUTE) (handle s) hw c") auto
      with run c have "r = r1" "hw' = hw1" by (auto simp: on_channel_def)
      with move_trace(2) [OF r1] show ?thesis
        by (simp add: move_call_def Some c)
    qed
  qed
  show "r = Inr () \<Longrightarrow> t \<noteq> None \<Longrightarrow> map_of (channels s) ax \<noteq> None"
    using assms by (auto simp: move_to_def on_channel_def split: option.splits)
qed

lemma seq_moves:
  assumes a: "a hw s = (r1, hw1, s1) \<Longrightarrow> same_layout s s1 \<and> issues_moves e1 r1 hw hw1"
    and b: "\<And>r hw' s'. b hw1 s1 = (r, hw', s') \<Longrightarrow> same_layout s1 s' \<and> issues_moves e2 r hw1 hw'"
    and r1: "a hw s = (r1, hw1, s1)"
    and run: "seq a b hw s = (r, hw', s')"
  shows "same_layout s s' \<and> issues_moves (e1 @ e2) r hw hw'"
proof (cases r1)
  case (Inl e)
  with run r1 have "r = Inl e" "hw' = hw1" "s' = s1" by (auto simp: seq_def)
  with a [OF r1] Inl show ?thesis by (auto intro: issues_moves_fail)
next
  case (Inr u)
  with run r1 have "b hw1 s1 = (r, hw', s')" by (auto simp: seq_def)
  from b [OF this] a [OF r1] Inr show ?thesis
    by (auto intro: issues_moves_then same_layout_trans)
qed

lemma move_absolute_body_trace:
  assumes "seq (move_to X x) (seq (move_to Y y) (move_to Z z)) hw s = (r, hw', s')"
  shows "same_layout s s' \<and> issues_moves (expected_moves s x y z) r hw hw'"
proof -
  obtain r1 hw1 s1 where r1: "move_to X x hw s = (r1, hw1, s1)"
    by (cases "move_to X x hw s") auto
  note tx = move_to_trace(1,2) [OF r1]
  have rest: "same_layout s1 s'' \<and> issues_moves (move_call s Y y @ move_call s Z z) r' hw1 hw''"
    if run2: "seq (move_to Y y) (move_to Z z) hw1 s1 = (r', hw'', s'')" for r' hw'' s''
  proof -
    obtain r2 hw2 s2 where r2: "move_to Y y hw1 s1 = (r2, hw2, s2)"
      by (cases "move_to Y y hw1 s1") auto
    note ty = move_to_trace(1,2) [OF r2]
    have "same_layout s1 s'' \<and> issues_moves (move_call s1 Y y @ move_call s2 Z z) r' hw1 hw''"
      by (rule seq_moves [OF _ _ r2 run2]) (use ty in \<open>auto dest: move_to_trace(1,2)\<close>)
    moreover have "move_call s1 Y y = move_call s Y y"
      by (rule move_call_layout [OF tx(1)])
    moreover have "move_call s2 Z z = move_call s Z z"
      by (rule move_call_layout [OF same_layout_trans [OF tx(1) ty(1)]])
    ultimately show ?thesis by simp
  qed
  have "same_layout s s' \<and> issues_moves (move_call s X x @ (move_call s Y y @ move_call s Z z)) r hw hw'"
    by (rule seq_moves [OF _ _ r1 assms]) (use tx rest in auto)
  then show ?thesis by (simp add: expected_moves_def)
qed

lemma move_absolute_commands_trace:
  assumes "move_absolute_commands env x y z hw s = (r, hw', s')"
  shows "same_layout s s'" "issues_moves (expected_moves s x y z) r hw hw'"
proof -
  have "same_layout s s' \<and> issues_moves (expected_moves s x y z) r hw hw'"
  proof (cases "MCS_LOADED env \<and> connected s")
    case True
    with assms have "seq (move_to X x) (seq (move_to Y y) (move_to Z z)) hw s = (r, hw', s')"
      by (simp add: move_absolute_commands_def assert_driver_loaded_def assert_stage_connected_def)
    then show ?thesis by (rule move_absolute_body_trace)
  next
    case False
    with assms have "hw' = hw" "s' = s" "r \<noteq> Inr ()"
      by (auto simp: move_absolute_commands_def assert_driver_loaded_def
            assert_stage_connected_def split: if_splits)
    then show ?thesis by (simp add: issues_moves_refl)
  qed
  then show "same_layout s s'" "issues_moves (expected_moves s x y z) r hw hw'" by simp_all
qed

subsection \<open>The polling loop\<close>

lemma collect_status_frame:
  "collect_status env axs hw s = (r, hw', s') \<Longrightarrow> extends_with is_status_read hw hw'"
proof (induction axs arbitrary: hw s r hw' s')
  case Nil
  then show ?case by simp
next
  case (Cons ax axs)
  obtain r1 hw1 s1 where r1: "on_channel ax (humanized_status env) hw s = (r1, hw1, s1)"
    by (cases "on_channel ax (humanized_status env) hw s") auto
  have step: "extends_with is_status_read hw hw1"
    using on_channel_frame [OF _ r1, of is_status_read] by (auto dest: humanized_status_frame)
  show ?case
  proof (cases r1)
    case (Inl e)
    with Cons.prems r1 have "hw' = hw1" by auto
    with step show ?thesis by simp
  next
    case (Inr names)
    obtain r2 hw2 s2 where r2: "collect_status env axs hw1 s1 = (r2, hw2, s2)"
      by (cases "collect_status env axs hw1 s1") auto
    with Cons.prems r1 Inr have "hw' = hw2" by (auto split: sum.splits)
    with extends_with_trans [OF step Cons.IH [OF r2]] show ?thesis by simp
  qed
qed

lemma get_status_frame:
  "get_status env hw s = (r, hw', s') \<Longrightarrow> extends_with is_status_read hw hw'"
  by (auto simp: get_status_def assert_driver_loaded_def assert_stage_connected_def
        split: if_splits dest: collect_status_frame)

lemma is_stopped_frame:
  "is_stopped env hw s = (r, hw', s') \<Longrightarrow> extends_with is_status_read hw hw'"
  by (auto simp: is_stopped_def assert_driver_loaded_def assert_stage_connected_def
        split: if_splits prod.splits sum.splits dest: get_status_frame)

lemma events_sleep [simp]: "events (sleep d hw) = events hw @ [Sleep d]"
  by (simp add: sleep_def)

lemma poll_round_frame:
  assumes "is_stopped env (sleep d hw) s = (r, hw', s')"
  shows "\<exists>cs. events hw' = events hw @ Sleep d # cs \<and> list_all is_status_read cs"
  using is_stopped_frame [OF assms] by (auto simp: extends_with_def)


lemma wait_for_stopping_frame:
  assumes "wait_for_stopping env d hw s = Some y"
  shows "\<exists>cs. events (fst (snd y)) = events hw @ Sleep d # cs
           \<and> list_all (\<lambda>q. is_Sleep q \<or> is_status_read q) cs"
proof (rule wait_for_stopping.raw_induct
    [where P = "\<lambda>env d hw s y. \<exists>cs. events (fst (snd y)) = events hw @ Sleep d # cs
           \<and> list_all (\<lambda>q. is_Sleep q \<or> is_status_read q) cs", OF _ assms], goal_cases)
  case (1 wait env d hw s y)
  obtain r1 hw1 s1 where r1: "is_stopped env (sleep d hw) s = (r1, hw1, s1)"
    by (cases "is_stopped env (sleep d hw) s") auto
  from poll_round_frame [OF r1] obtain cs1
    where cs1: "events hw1 = events hw @ Sleep d # cs1" "list_all is_status_read cs1" by blast
  then have l1: "list_all (\<lambda>q. is_Sleep q \<or> is_status_read q) cs1"
    by (auto simp: list_all_iff)
  show ?case
  proof (cases "r1 = Inr False")
    case True
    with 1(2) r1 have "wait env d hw1 s1 = Some y" by simp
    from 1(1) [OF this] obtain cs2
      where cs2: "events (fst (snd y)) = events hw1 @ Sleep d # cs2"
        "list_all (\<lambda>q. is_Sleep q \<or> is_status_read q) cs2" by blast
    have "events (fst (snd y)) = events hw @ Sleep d # (cs1 @ Sleep d # cs2)"
      using cs1 cs2 by simp
    moreover have "list_all (\<lambda>q. is_Sleep q \<or> is_status_read q) (cs1 @ Sleep d # cs2)"
      using l1 cs2 by simp
    ultimately show ?thesis by blast
  next
    case False
    with 1(2) r1 have "fst (snd y) = hw1"
      by (auto split: sum.splits if_splits)
    with cs1 l1 show ?thesis by blast
  qed
qed

lemma wait_for_stopping_quiet:
  assumes "wait_for_stopping env d hw s = Some (r, hw', s')"
  shows "extends_with (\<lambda>q. \<not> is_Move q) hw hw'"
proof -
  from wait_for_stopping_frame [OF assms] obtain cs
    where cs: "events hw' = events hw @ Sleep d # cs"
      "list_all (\<lambda>q. is_Sleep q \<or> is_status_read q) cs" by auto
  have "\<not> is_Move q" if "is_Sleep q \<or> is_status_read q" for q
    using that by (cases q) auto
  with cs(2) have "list_all (\<lambda>q. \<not> is_Move q) (Sleep d # cs)"
    by (auto simp: list_all_iff)
  with cs(1) show ?thesis unfolding extends_with_def by blast
qed

lemma wait_for_stopping_last_poll:
  assumes "wait_for_stopping env d hw s = Some y"
  shows "fst y = Inr () \<longrightarrow> (\<exists>hw0 s0. is_stopped env (sleep d hw0) s0 = (Inr True, snd y))"
proof (rule wait_for_stopping.raw_induct
    [where P = "\<lambda>env d hw s y. fst y = Inr ()
        \<longrightarrow> (\<exists>hw0 s0. is_stopped env (sleep d hw0) s0 = (Inr True, snd y))", OF _ assms],
    goal_cases)
  case (1 wait env d hw s y)
  obtain r1 hw1 s1 where r1: "is_stopped env (sleep d hw) s = (r1, hw1, s1)"
    by (cases "is_stopped env (sleep d hw) s") auto
  show ?case
  proof (cases "r1 = Inr False")
    case True
    with 1(2) r1 have "wait env d hw1 s1 = Some y" by simp
    from 1(1) [OF this] show ?thesis .
  next
    case False
    with 1(2) r1 have "fst y = Inr () \<longrightarrow> r1 = Inr True \<and> snd y = (hw1, s1)"
      by (auto split: sum.splits if_splits)
    with r1 show ?thesis by auto
  qed
qed

lemma poll_0: "poll env d 0 hw s = fst (is_stopped env (sleep d hw) s)"
  by (simp add: poll_def)

lemma poll_Suc:
  "is_stopped env (sleep d hw) s = (r1, hw1, s1) \<Longrightarrow> poll env d (Suc k) hw s = poll env d k hw1 s1"
  by (simp add: poll_def)

lemma wait_for_stopping_returns:
  assumes "poll env d k hw s \<noteq> Inr False" "\<forall>j<k. poll env d j hw s = Inr False"
  shows "\<exists>hw' s'. wait_for_stopping env d hw s
           = Some (map_sum id (\<lambda>b. ()) (poll env d k hw s), hw', s')"
  using assms
proof (induction k arbitrary: hw s)
  case 0
  obtain r1 hw1 s1 where r1: "is_stopped env (sleep d hw) s = (r1, hw1, s1)"
    by (cases "is_stopped env (sleep d hw) s") auto
  with 0 have "r1 \<noteq> Inr False" by (simp add: poll_0)
  with r1 show ?case
    by (subst wait_for_stopping.simps) (auto simp: poll_0 split: sum.splits)
next
  case (Suc k)
  obtain r1 hw1 s1 where r1: "is_stopped env (sleep d hw) s = (r1, hw1, s1)"
    by (cases "is_stopped env (sleep d hw) s") auto
  from Suc.prems(2) have "poll env d 0 hw s = Inr False" by blast
  with r1 have f: "r1 = Inr False" by (simp add: poll_0)
  have a: "poll env d k hw1 s1 \<noteq> Inr False"
    using Suc.prems(1) by (simp add: poll_Suc [OF r1])
  have b: "\<forall>j<k. poll env d j hw1 s1 = Inr False"
  proof (intro allI impI)
    fix j assume "j < k"
    then have "poll env d (Suc j) hw s = Inr False" using Suc.prems(2) by simp
    then show "poll env d j hw1 s1 = Inr False" by (simp add: poll_Suc [OF r1])
  qed
  from Suc.IH [OF a b] obtain hw' s'
    where "wait_for_stopping env d hw1 s1 = Some (map_sum id (\<lambda>b. ()) (poll env d k hw1 s1), hw', s')"
    by blast
  then have "wait_for_stopping env d hw s = Some (map_sum id (\<lambda>b. ()) (poll env d (Suc k) hw s), hw', s')"
    by (subst wait_for_stopping.simps) (simp add: r1 f poll_Suc [OF r1])
  then show ?case by blast
qed

lemma wait_for_stopping_polled:
  assumes "wait_for_stopping env d hw s = Some y"
  shows "\<exists>k. poll env d k hw s \<noteq> Inr False \<and> (\<forall>j<k. poll env d j hw s = Inr False)
           \<and> fst y = map_sum id (\<lambda>b. ()) (poll env d k hw s)"
proof (rule wait_for_stopping.raw_induct
    [where P = "\<lambda>env d hw s y. \<exists>k. poll env d k hw s \<noteq> Inr False
           \<and> (\<forall>j<k. poll env d j hw s = Inr False)
           \<and> fst y = map_sum id (\<lambda>b. ()) (poll env d k hw s)", OF _ assms], goal_cases)
  case (1 wait env d hw s y)
  obtain r1 hw1 s1 where r1: "is_stopped env (sleep d hw) s = (r1, hw1, s1)"
    by (cases "is_stopped env (sleep d hw) s") auto
  show ?case
  proof (cases "r1 = Inr False")
    case True
    with 1(2) r1 have "wait env d hw1 s1 = Some y" by simp
    from 1(1) [OF this] obtain k where k: "poll env d k hw1 s1 \<noteq> Inr False"
      "\<forall>j<k. poll env d j hw1 s1 = Inr False"
      "fst y = map_sum id (\<lambda>b. ()) (poll env d k hw1 s1)" by blast
    have "poll env d j hw s = Inr False" if "j < Suc k" for j
    proof (cases j)
      case 0
      then show ?thesis using r1 True by (simp add: poll_0)
    next
      case (Suc i)
      with that k(2) show ?thesis by (simp add: poll_Suc [OF r1])
    qed
    with k(1,3) have "poll env d (Suc k) hw s \<noteq> Inr False
        \<and> (\<forall>j<Suc k. poll env d j hw s = Inr False)
        \<and> fst y = map_sum id (\<lambda>b. ()) (poll env d (Suc k) hw s)"
      by (simp add: poll_Suc [OF r1])
    then show ?thesis by blast
  next
    case False
    with 1(2) r1 have "fst y = map_sum id (\<lambda>b. ()) r1"
      by (auto split: sum.splits if_splits)
    with False r1 have "poll env d 0 hw s \<noteq> Inr False
        \<and> (\<forall>j<0. poll env d j hw s = Inr False)
        \<and> fst y = map_sum id (\<lambda>b. ()) (poll env d 0 hw s)"
      by (simp add: poll_0)
    then show ?thesis by blast
  qed
qed

lemma wait_for_stopping_normal_iff:
  "(\<exists>hw' s'. wait_for_stopping env d hw s = Some (Inr (), hw', s'))
     \<longleftrightarrow> (\<exists>k. poll env d k hw s = Inr True \<and> (\<forall>j<k. poll env d j hw s = Inr False))"
proof
  assume "\<exists>hw' s'. wait_for_stopping env d hw s = Some (Inr (), hw', s')"
  then obtain hw' s' where w: "wait_for_stopping env d hw s = Some (Inr (), hw', s')" by blast
  from wait_for_stopping_polled [OF w] obtain k
    where k: "\<forall>j<k. poll env d j hw s = Inr False"
      "Inr () = map_sum id (\<lambda>b. ()) (poll env d k hw s)" "poll env d k hw s \<noteq> Inr False"
    by auto
  from k(2,3) have "poll env d k hw s = Inr True"
    by (cases "poll env d k hw s") auto
  with k(1) show "\<exists>k. poll env d k hw s = Inr True \<and> (\<forall>j<k. poll env d j hw s = Inr False)"
    by blast
next
  assume "\<exists>k. poll env d k hw s = Inr True \<and> (\<forall>j<k. poll env d j hw s = Inr False)"
  then obtain k where k: "poll env d k hw s = Inr True" "\<forall>j<k. poll env d j hw s = Inr False"
    by blast
  then have "poll env d k hw s \<noteq> Inr False" by simp
  from wait_for_stopping_returns [OF this k(2)] k(1)
  show "\<exists>hw' s'. wait_for_stopping env d hw s = Some (Inr (), hw', s')" by simp
qed

lemma wait_for_stopping_diverges_iff:
  "wait_for_stopping env d hw s = None \<longleftrightarrow> (\<forall>k. poll env d k hw s = Inr False)"
proof
  assume n: "wait_for_stopping env d hw s = None"
  show "\<forall>k. poll env d k hw s = Inr False"
  proof (rule ccontr)
    assume "\<not> (\<forall>k. poll env d k hw s = Inr False)"
    then have ex: "\<exists>k. poll env d k hw s \<noteq> Inr False" by blast
    define k where "k = (LEAST k. poll env d k hw s \<noteq> Inr False)"
    have a: "poll env d k hw s \<noteq> Inr False"
      unfolding k_def using ex by (rule LeastI_ex)
    have b: "\<forall>j<k. poll env d j hw s = Inr False"
      unfolding k_def using not_less_Least by blast
    from wait_for_stopping_returns [OF a b] n show False by simp
  qed
next
  assume all: "\<forall>k. poll env d k hw s = Inr False"
  show "wait_for_stopping env d hw s = None"
  proof (cases "wait_for_stopping env d hw s")
    case None
    then show ?thesis .
  next
    case (Some y)
    from wait_for_stopping_polled [OF Some] all show ?thesis by blast
  qed
qed

subsection \<open>Absolute moves\<close>

lemma move_absolute_commands_channel:
  assumes "move_absolute_commands env (Some v) y z hw s = (Inr (), hw', s')"
  shows "map_of (channels s) X \<noteq> None"
proof -
  from assms have run: "seq (move_to X (Some v)) (seq (move_to Y y) (move_to Z z)) hw s = (Inr (), hw', s')"
    by (auto simp: move_absolute_commands_def assert_driver_loaded_def
          assert_stage_connected_def split: if_splits)
  obtain r1 hw1 s1 where r1: "move_to X (Some v) hw s = (r1, hw1, s1)"
    by (cases "move_to X (Some v) hw s") auto
  with run have "r1 = Inr ()" by (cases r1) (auto simp: seq_def)
  with move_to_trace(3) [OF r1] show ?thesis by simp
qed

lemma move_absolute_trace:
  assumes "move_absolute env x y z wait hw s = Some (r, hw', s')"
  shows "issues_moves (expected_moves s x y z) r hw hw'"
    and "r = Inr () \<Longrightarrow> \<exists>hw1 s1. move_absolute_commands env x y z hw s = (Inr (), hw1, s1)"
proof -
  obtain r1 hw1 s1 where c: "move_absolute_commands env x y z hw s = (r1, hw1, s1)"
    by (cases "move_absolute_commands env x y z hw s") auto
  note t = move_absolute_commands_trace(2) [OF c]
  show "issues_moves (expected_moves s x y z) r hw hw'"
  proof (cases r1)
    case (Inl e)
    with assms c have "r = r1" "hw' = hw1" by (auto simp: move_absolute_def)
    with t show ?thesis by simp
  next
    case (Inr u)
    show ?thesis
    proof (cases wait)
      case True
      with assms c Inr have "wait_for_stopping env default_delay hw1 s1 = Some (r, hw', s')"
        by (simp add: move_absolute_def)
      from issues_moves_quiet [OF _ wait_for_stopping_quiet [OF this]] t Inr
      show ?thesis by simp
    next
      case False
      with assms c Inr have "r = r1" "hw' = hw1" by (auto simp: move_absolute_def)
      with t show ?thesis by simp
    qed
  qed
  show "r = Inr () \<Longrightarrow> \<exists>hw1 s1. move_absolute_commands env x y z hw s = (Inr (), hw1, s1)"
    using assms c by (cases r1) (auto simp: move_absolute_def)
qed

lemma to_picometer_5: "to_picometer 5 = Inr 5000000"
  using to_picometer_int [of 5] by simp

text \<open>
  Claim C6: the move calls that \<^verbatim>\<open>move_absolute\<close> has issued, when its commands are
  through and when it ends after waiting, are the first of the expected ones, which are one call for each axis with a target, in the
  order X, Y, Z, and none for an axis with the target \<^verbatim>\<open>None\<close>; they are all of them
  when it returns without an exception. In particular \<^verbatim>\<open>move_absolute(x=5)\<close> that
  returns has issued exactly one move call, on the X channel, to 5000000 picometers.
\<close>

theorem move_absolute_order:
  "(move_absolute_commands env x y z hw s = (r1, hw1, s1) \<longrightarrow>
      prefix (filter is_Move (issued hw hw1)) (expected_moves s x y z)
      \<and> (r1 = Inr () \<longrightarrow> filter is_Move (issued hw hw1) = expected_moves s x y z))
   \<and> (move_absolute env x y z wait hw s = Some (r, hw', s') \<longrightarrow>
      prefix (filter is_Move (issued hw hw')) (expected_moves s x y z)
      \<and> (r = Inr () \<longrightarrow> filter is_Move (issued hw hw') = expected_moves s x y z)
      \<and> (r = Inr () \<and> x = Some 5 \<and> y = None \<and> z = None \<longrightarrow>
           (\<exists>c. map_of (channels s) X = Some c
              \<and> filter is_Move (issued hw hw') = [Move (handle s) (ch_handle c) 5000000])))"
proof -
  have commands: "prefix (filter is_Move (issued hw hw1)) (expected_moves s x y z)
      \<and> (r1 = Inr () \<longrightarrow> filter is_Move (issued hw hw1) = expected_moves s x y z)"
    if c: "move_absolute_commands env x y z hw s = (r1, hw1, s1)"
    by (rule issues_moves_issued [OF move_absolute_commands_trace(2) [OF c]])
  have whole: "prefix (filter is_Move (issued hw hw')) (expected_moves s x y z)
      \<and> (r = Inr () \<longrightarrow> filter is_Move (issued hw hw') = expected_moves s x y z)
      \<and> (r = Inr () \<and> x = Some 5 \<and> y = None \<and> z = None \<longrightarrow>
           (\<exists>c. map_of (channels s) X = Some c
              \<and> filter is_Move (issued hw hw') = [Move (handle s) (ch_handle c) 5000000]))"
    if m: "move_absolute env x y z wait hw s = Some (r, hw', s')"
  proof -
    note t = move_absolute_trace [OF m]
    from issues_moves_issued [OF t(1)]
    have general: "prefix (filter is_Move (issued hw hw')) (expected_moves s x y z)"
      "r = Inr () \<longrightarrow> filter is_Move (issued hw hw') = expected_moves s x y z"
      by simp_all
    have "\<exists>c. map_of (channels s) X = Some c
            \<and> filter is_Move (issued hw hw') = [Move (handle s) (ch_handle c) 5000000]"
      if ok: "r = Inr ()" and args: "x = Some 5" "y = None" "z = None"
    proof -
      from t(2) [OF ok] args obtain hw2 s2
        where "move_absolute_commands env (Some 5) y z hw s = (Inr (), hw2, s2)" by auto
      from move_absolute_commands_channel [OF this]
      obtain c where c: "map_of (channels s) X = Some c" by auto
      have "expected_moves s (Some 5) None None = [Move (handle s) (ch_handle c) 5000000]"
        by (simp add: expected_moves_def move_call_def c to_picometer_5)
      with general(2) ok args c show ?thesis by simp
    qed
    with general show ?thesis by blast
  qed
  from commands whole show ?thesis by blast
qed

theorem move_absolute_order_witness:
  "\<exists>hw' s'. move_absolute bench_env (Some 5) None None True
               (bench [] 1 (\<lambda>h. 2) (moving_until 2)) (connected_stage True)
             = Some (Inr (), hw', s')
     \<and> filter is_Move (issued (bench [] 1 (\<lambda>h. 2) (moving_until 2)) hw')
         = [Move (Some 1) 0 5000000]"
proof -
  let ?B = "bench [] 1 (\<lambda>h. 2) (moving_until 2)" and ?S = "connected_stage True"
  have "map_option fst (move_absolute bench_env (Some 5) None None True ?B ?S) = Some (Inr ())"
    by code_simp
  then obtain hw' s' where m: "move_absolute bench_env (Some 5) None None True ?B ?S
      = Some (Inr (), hw', s')"
    by (cases "move_absolute bench_env (Some 5) None None True ?B ?S") auto
  from move_absolute_order [where env = bench_env and x = "Some 5" and y = None and z = None
      and hw = ?B and s = ?S and wait = True and r = "Inr ()" and hw' = hw' and s' = s',
      THEN conjunct2, THEN mp, OF m]
  obtain c where "map_of (channels ?S) X = Some c"
    "filter is_Move (issued ?B hw') = [Move (handle ?S) (ch_handle c) 5000000]"
    by auto
  then have "filter is_Move (issued ?B hw') = [Move (Some 1) 0 5000000]"
    by (auto simp: connected_stage_def Channel_init_def)
  with m show ?thesis by blast
qed

subsection \<open>Waiting for the stop\<close>

text \<open>
  Claim C10: when \<^verbatim>\<open>_wait_for_stopping\<close> ends, its first action was a sleep of one
  delay, and when it returns normally its last action was a read of \<^verbatim>\<open>is_stopped\<close> that
  was true. It returns normally exactly when some poll reads true after polls that all
  read false, and it runs forever exactly when every poll reads false: there is no
  timeout. \<^verbatim>\<open>move_absolute\<close> and \<^verbatim>\<open>move_relative\<close> with \<^verbatim>\<open>wait_for_stopping\<close> return
  normally only from such a read.
\<close>

theorem wait_for_stopping_polls:
  "(wait_for_stopping env d hw s = Some (r, hw', s') \<longrightarrow>
       (\<exists>cs. issued hw hw' = Sleep d # cs)
       \<and> (r = Inr () \<longrightarrow> (\<exists>hw0 s0. is_stopped env (sleep d hw0) s0 = (Inr True, hw', s'))))
   \<and> ((\<exists>hw1 s1. wait_for_stopping env d hw s = Some (Inr (), hw1, s1))
        \<longleftrightarrow> (\<exists>k. poll env d k hw s = Inr True \<and> (\<forall>j<k. poll env d j hw s = Inr False)))
   \<and> (wait_for_stopping env d hw s = None \<longleftrightarrow> (\<forall>k. poll env d k hw s = Inr False))
   \<and> (move_absolute env x y z True hw s = Some (Inr (), hw', s') \<longrightarrow>
        (\<exists>hw0 s0. is_stopped env (sleep default_delay hw0) s0 = (Inr True, hw', s')))
   \<and> (move_relative env dx dy dz True hw s = Some (Inr (), hw', s') \<longrightarrow>
        (\<exists>hw0 s0. is_stopped env (sleep default_delay hw0) s0 = (Inr True, hw', s')))"
proof -
  have first: "(\<exists>cs. issued hw hw' = Sleep d # cs)
       \<and> (r = Inr () \<longrightarrow> (\<exists>hw0 s0. is_stopped env (sleep d hw0) s0 = (Inr True, hw', s')))"
    if w: "wait_for_stopping env d hw s = Some (r, hw', s')"
  proof -
    from wait_for_stopping_frame [OF w] have "\<exists>cs. issued hw hw' = Sleep d # cs"
      by (auto simp: issued_def)
    with wait_for_stopping_last_poll [OF w] show ?thesis by simp
  qed
  have absolute: "\<exists>hw0 s0. is_stopped env (sleep default_delay hw0) s0 = (Inr True, hw', s')"
    if m: "move_absolute env x y z True hw s = Some (Inr (), hw', s')"
  proof -
    from m obtain hw1 s1 where "wait_for_stopping env default_delay hw1 s1 = Some (Inr (), hw', s')"
      by (auto simp: move_absolute_def split: prod.splits sum.splits)
    from wait_for_stopping_last_poll [OF this] show ?thesis by simp
  qed
  have relative: "\<exists>hw0 s0. is_stopped env (sleep default_delay hw0) s0 = (Inr True, hw', s')"
    if m: "move_relative env dx dy dz True hw s = Some (Inr (), hw', s')"
  proof -
    from m obtain hw1 s1 where "wait_for_stopping env default_delay hw1 s1 = Some (Inr (), hw', s')"
      by (auto simp: move_relative_def split: prod.splits sum.splits)
    from wait_for_stopping_last_poll [OF this] show ?thesis by simp
  qed
  from first absolute relative
    wait_for_stopping_normal_iff [of env d hw s] wait_for_stopping_diverges_iff [of env d hw s]
  show ?thesis by blast
qed

theorem wait_for_stopping_polls_witness:
  "poll bench_env default_delay 0 (bench [] 1 (\<lambda>h. 2) (moving_until 2)) (connected_stage True)
     = Inr False
   \<and> poll bench_env default_delay 1 (bench [] 1 (\<lambda>h. 2) (moving_until 2)) (connected_stage True)
     = Inr True
   \<and> (\<exists>hw' s'. wait_for_stopping bench_env default_delay
                  (bench [] 1 (\<lambda>h. 2) (moving_until 2)) (connected_stage True)
                = Some (Inr (), hw', s')
         \<and> (\<exists>cs. issued (bench [] 1 (\<lambda>h. 2) (moving_until 2)) hw' = Sleep default_delay # cs)
         \<and> (\<exists>hw0 s0. is_stopped bench_env (sleep default_delay hw0) s0 = (Inr True, hw', s')))"
proof -
  let ?B = "bench [] 1 (\<lambda>h. 2) (moving_until 2)" and ?S = "connected_stage True"
  have p0: "poll bench_env default_delay 0 ?B ?S = Inr False" by code_simp
  have p1: "poll bench_env default_delay 1 ?B ?S = Inr True" by code_simp
  have "\<forall>j<1. poll bench_env default_delay j ?B ?S = Inr False" using p0 by simp
  with p1 have "\<exists>k. poll bench_env default_delay k ?B ?S = Inr True
      \<and> (\<forall>j<k. poll bench_env default_delay j ?B ?S = Inr False)" by blast
  with wait_for_stopping_polls [of bench_env default_delay ?B ?S]
  obtain hw' s' where w: "wait_for_stopping bench_env default_delay ?B ?S = Some (Inr (), hw', s')"
    by blast
  from wait_for_stopping_polls [of bench_env default_delay ?B ?S "Inr ()" hw' s'] w
  have "(\<exists>cs. issued ?B hw' = Sleep default_delay # cs)
      \<and> (\<exists>hw0 s0. is_stopped bench_env (sleep default_delay hw0) s0 = (Inr True, hw', s'))"
    by blast
  with p0 p1 w show ?thesis by blast
qed

section \<open>Device discovery\<close>

subsection \<open>Sorting strings and lists together\<close>

lemma py_lt_error: "py_lt a b = Inl e \<Longrightarrow> e = TypeError"
  by (cases a; cases b) auto

lemma py_lt_mixed [simp]:
  "py_lt (PyStr a) PyEmptyList = Inl TypeError" "py_lt PyEmptyList (PyStr a) = Inl TypeError"
  by simp_all

lemma py_insert_Cons:
  "py_insert x (y # ys) = Inr zs \<Longrightarrow>
     (\<exists>b. py_lt y x = Inr b) \<and>
     (zs = x # y # ys \<or> (\<exists>ws. py_insert x ys = Inr ws \<and> zs = y # ws))"
  by (cases "py_lt y x"; cases "py_insert x ys") (auto split: bool.splits)

lemma py_insert_set: "py_insert x ys = Inr zs \<Longrightarrow> set zs = insert x (set ys)"
proof (induction ys arbitrary: zs)
  case Nil
  then show ?case by auto
next
  case (Cons y ys)
  from py_insert_Cons [OF Cons.prems] Cons.IH show ?case by auto
qed

lemma py_sorted_Cons:
  "py_sorted (x # xs) = Inr ys \<Longrightarrow> \<exists>ws. py_sorted xs = Inr ws \<and> py_insert x ws = Inr ys"
  by (cases "py_sorted xs") auto

lemma py_sorted_set: "py_sorted xs = Inr ys \<Longrightarrow> set ys = set xs"
proof (induction xs arbitrary: ys)
  case Nil
  then show ?case by auto
next
  case (Cons x xs)
  from py_sorted_Cons [OF Cons.prems] obtain ws
    where "py_sorted xs = Inr ws" "py_insert x ws = Inr ys" by blast
  then show ?case using Cons.IH [of ws] py_insert_set [of x ws ys] by simp
qed

lemma py_insert_error: "py_insert x ys = Inl e \<Longrightarrow> e = TypeError"
proof (induction ys)
  case Nil
  then show ?case by simp
next
  case (Cons y ys)
  then show ?case
    by (cases "py_lt y x"; cases "py_insert x ys")
       (auto split: bool.splits dest: py_lt_error)
qed

lemma py_sorted_error: "py_sorted xs = Inl e \<Longrightarrow> e = TypeError"
proof (induction xs)
  case Nil
  then show ?case by simp
next
  case (Cons x xs)
  then show ?case
    by (cases "py_sorted xs") (auto dest: py_insert_error)
qed
lemma py_lt_kind: "py_lt a b = Inr c \<Longrightarrow> kind a = kind b"
  by (cases a; cases b) auto

lemma py_insert_kind:
  assumes "py_insert x ys = Inr zs" "\<forall>y \<in> set ys. kind y = k" "ys \<noteq> []"
  shows "kind x = k"
proof -
  from assms(3) obtain y rest where ys: "ys = y # rest" by (cases ys) auto
  from py_insert_Cons [OF assms(1) [unfolded ys]] obtain b where "py_lt y x = Inr b" by blast
  from py_lt_kind [OF this] assms(2) ys show ?thesis by simp
qed

lemma py_sorted_kind:
  "py_sorted xs = Inr ys \<Longrightarrow> a \<in> set xs \<Longrightarrow> b \<in> set xs \<Longrightarrow> kind a = kind b"
proof (induction xs arbitrary: ys a b)
  case Nil
  then show ?case by simp
next
  case (Cons x xs)
  from py_sorted_Cons [OF Cons.prems(1)]
  obtain ws where ws: "py_sorted xs = Inr ws" "py_insert x ws = Inr ys" by blast
  have same: "kind u = kind v" if "u \<in> set xs" "v \<in> set xs" for u v
    using Cons.IH [OF ws(1) that] .
  have head: "kind x = kind u" if "u \<in> set xs" for u
  proof -
    from that py_sorted_set [OF ws(1)] have ne: "ws \<noteq> []" by auto
    have "\<forall>y \<in> set ws. kind y = kind u"
    proof
      fix y assume "y \<in> set ws"
      then have "y \<in> set xs" using py_sorted_set [OF ws(1)] by simp
      then show "kind y = kind u" using that by (rule same)
    qed
    from py_insert_kind [OF ws(2) this ne] show ?thesis .
  qed
  consider "a = x" "b = x" | "a = x" "b \<in> set xs" | "a \<in> set xs" "b = x"
    | "a \<in> set xs" "b \<in> set xs"
    using Cons.prems(2,3) by auto
  then show ?case
  proof cases
    case 1
    then show ?thesis by simp
  next
    case 2
    then show ?thesis using head [of b] by simp
  next
    case 3
    then show ?thesis using head [of a] by simp
  next
    case 4
    then show ?thesis by (rule same)
  qed
qed

lemma py_sorted_mixed:
  assumes "PyStr a \<in> set xs" "PyEmptyList \<in> set xs"
  shows "py_sorted xs = Inl TypeError"
proof (cases "py_sorted xs")
  case (Inl e)
  then show ?thesis by (simp add: py_sorted_error)
next
  case (Inr ys)
  from py_sorted_kind [OF Inr assms] show ?thesis by simp
qed

subsection \<open>The addresses found\<close>

text \<open>
  With a single locator that has two bus modules, the result is the two addresses.
\<close>

lemma find_stage_addresses_single:
  "fst (find_stage_addresses bench_env (bench ''A'' 1 (modules_of ''A'') (\<lambda>h. 0)))
     = Inr [PyStr ''A_Ch1-3'', PyStr ''A_Ch4-6'']"
  by code_simp

text \<open>
  Claim C3 states this result for every list of locators with exactly one of two bus
  modules. A locator of another kind is replaced by the empty list (line 76), and
  \<^verbatim>\<open>sorted\<close> then compares a string with a list: for the locators \<open>A\<close> (two modules) and
  \<open>B\<close> (one module), \<^verbatim>\<open>find_stage_addresses\<close> raises TypeError after probing both.
\<close>

theorem find_stage_addresses_mixed_raises:
  "(case find_stage_addresses bench_env
           (bench (''A'' @ [CHR 0x0A] @ ''B'') 1 (modules_of ''A'') (\<lambda>h. 0)) of
      (r, hw') \<Rightarrow>
        r = Inl TypeError
        \<and> events hw' =
            [FindDevices,
             Open ''A'', GetProperty_i32 (Some 1) 0 NUMBER_OF_BUS_MODULES, Close (Some 1),
             Open ''B'', GetProperty_i32 (Some 1) 0 NUMBER_OF_BUS_MODULES, Close (Some 1)])"
  by code_simp

end
